theory Spec2Isabelle
  imports Complex_Main
begin

section \<open>JavaScript numbers\<close>

text \<open>
  Every number of the script is an IEEE 754 binary64 value. A finite value is kept as the
  rational it denotes (\<open>Fin 0\<close> is the positive zero); the negative zero, the two infinities
  and NaN are constructors of their own. Arithmetic computes the exact rational result and
  rounds it to the nearest representable value, ties to even, as ECMAScript prescribes.
  Storing into a \<open>Float32Array\<close> rounds once more, to binary32. The type has a value
  \<open>Fin x\<close> for every rational \<open>x\<close>, representable or not; the operations return
  representable values, and a statement that needs its arguments representable says so.
\<close>

datatype jsnum = Fin rat | NegZero | PosInf | NegInf | NaN

function bitlen :: "int \<Rightarrow> nat" where
  "bitlen a = (if a \<le> 0 then 0 else Suc (bitlen (a div 2)))"
  by pat_completeness auto
termination
  by (relation "measure nat") auto

declare bitlen.simps [simp del]

definition pow2 :: "int \<Rightarrow> rat" where
  "pow2 e = (if 0 \<le> e then 2 ^ nat e else 1 / 2 ^ nat (- e))"

text \<open>\<open>ilog2 x\<close> is the binary exponent of a positive rational: \<open>2^e \<le> x < 2^(e+1)\<close>.\<close>

definition ilog2 :: "rat \<Rightarrow> int" where
  "ilog2 x = (let (a, b) = quotient_of x;
                  d = int (bitlen a) - int (bitlen b)
              in if pow2 d \<le> x then d else d - 1)"

definition round_half_even :: "rat \<Rightarrow> int" where
  "round_half_even y = (let f = \<lfloor>y\<rfloor>; d = y - of_int f
     in if d < 1 / 2 then f else if 1 / 2 < d then f + 1 else if even f then f else f + 1)"

text \<open>
  Rounding to precision \<open>p\<close> with least normal exponent \<open>emin\<close>: the spacing of the
  representable values around \<open>x\<close> is \<open>2^(e - p + 1)\<close>, where \<open>e\<close> is the exponent of \<open>x\<close>,
  or \<open>emin\<close> in the subnormal range.
\<close>

definition round_to :: "nat \<Rightarrow> int \<Rightarrow> rat \<Rightarrow> rat" where
  "round_to p emin x = (let e = max (ilog2 \<bar>x\<bar>) emin; q = pow2 (e - int p + 1)
     in q * of_int (round_half_even (x / q)))"

definition signed_zero :: "bool \<Rightarrow> jsnum" where
  "signed_zero s = (if s then NegZero else Fin 0)"

definition signed_inf :: "bool \<Rightarrow> jsnum" where
  "signed_inf s = (if s then NegInf else PosInf)"

text \<open>The rounding of a nonzero exact result, with overflow to an infinity and underflow
  to a zero of the same sign.\<close>

definition round_ieee :: "nat \<Rightarrow> int \<Rightarrow> int \<Rightarrow> rat \<Rightarrow> jsnum" where
  "round_ieee p emin emax x = (let r = round_to p emin x
     in if pow2 (emax + 1) \<le> \<bar>r\<bar> then signed_inf (x < 0)
        else if r = 0 then signed_zero (x < 0) else Fin r)"

definition round64 :: "rat \<Rightarrow> jsnum" where
  "round64 x = round_ieee 53 (- 1022) 1023 x"

definition round32 :: "rat \<Rightarrow> jsnum" where
  "round32 x = round_ieee 24 (- 126) 127 x"

fun is_nan :: "jsnum \<Rightarrow> bool" where
  "is_nan NaN = True"
| "is_nan _ = False"

fun is_inf :: "jsnum \<Rightarrow> bool" where
  "is_inf PosInf = True"
| "is_inf NegInf = True"
| "is_inf _ = False"

fun is_zero :: "jsnum \<Rightarrow> bool" where
  "is_zero (Fin x) = (x = 0)"
| "is_zero NegZero = True"
| "is_zero _ = False"

fun is_finite :: "jsnum \<Rightarrow> bool" where
  "is_finite (Fin x) = True"
| "is_finite NegZero = True"
| "is_finite _ = False"

text \<open>The sign bit.\<close>

fun is_neg :: "jsnum \<Rightarrow> bool" where
  "is_neg (Fin x) = (x < 0)"
| "is_neg NegZero = True"
| "is_neg NegInf = True"
| "is_neg _ = False"

text \<open>The rational a finite value denotes.\<close>

fun rat_of :: "jsnum \<Rightarrow> rat" where
  "rat_of (Fin x) = x"
| "rat_of _ = 0"

fun js_neg :: "jsnum \<Rightarrow> jsnum" where
  "js_neg (Fin x) = (if x = 0 then NegZero else Fin (- x))"
| "js_neg NegZero = Fin 0"
| "js_neg PosInf = NegInf"
| "js_neg NegInf = PosInf"
| "js_neg NaN = NaN"

definition js_add :: "jsnum \<Rightarrow> jsnum \<Rightarrow> jsnum" where
  "js_add a b =
     (if is_nan a \<or> is_nan b then NaN
      else if is_inf a then (if is_inf b \<and> is_neg a \<noteq> is_neg b then NaN else a)
      else if is_inf b then b
      else if is_zero a \<and> is_zero b then signed_zero (is_neg a \<and> is_neg b)
      else let s = rat_of a + rat_of b in if s = 0 then Fin 0 else round64 s)"

definition js_sub :: "jsnum \<Rightarrow> jsnum \<Rightarrow> jsnum" where
  "js_sub a b = js_add a (js_neg b)"

definition js_mul :: "jsnum \<Rightarrow> jsnum \<Rightarrow> jsnum" where
  "js_mul a b =
     (if is_nan a \<or> is_nan b then NaN
      else if is_inf a \<or> is_inf b then
        (if is_zero a \<or> is_zero b then NaN else signed_inf (is_neg a \<noteq> is_neg b))
      else if is_zero a \<or> is_zero b then signed_zero (is_neg a \<noteq> is_neg b)
      else round64 (rat_of a * rat_of b))"

definition js_div :: "jsnum \<Rightarrow> jsnum \<Rightarrow> jsnum" where
  "js_div a b =
     (if is_nan a \<or> is_nan b then NaN
      else if is_inf a then (if is_inf b then NaN else signed_inf (is_neg a \<noteq> is_neg b))
      else if is_inf b then signed_zero (is_neg a \<noteq> is_neg b)
      else if is_zero b then (if is_zero a then NaN else signed_inf (is_neg a \<noteq> is_neg b))
      else if is_zero a then signed_zero (is_neg a \<noteq> is_neg b)
      else round64 (rat_of a / rat_of b))"

text \<open>The relational operator \<open><\<close> and strict equality \<open>===\<close>: NaN compares false with
  everything, the two zeros are equal.\<close>

fun js_lt :: "jsnum \<Rightarrow> jsnum \<Rightarrow> bool" where
  "js_lt NaN _ = False"
| "js_lt _ NaN = False"
| "js_lt PosInf _ = False"
| "js_lt _ NegInf = False"
| "js_lt NegInf _ = True"
| "js_lt _ PosInf = True"
| "js_lt a b = (rat_of a < rat_of b)"

fun js_eq :: "jsnum \<Rightarrow> jsnum \<Rightarrow> bool" where
  "js_eq NaN _ = False"
| "js_eq _ NaN = False"
| "js_eq PosInf b = (b = PosInf)"
| "js_eq NegInf b = (b = NegInf)"
| "js_eq a b = (is_finite b \<and> rat_of a = rat_of b)"

text \<open>\<open>Math.ceil\<close> and \<open>Math.max\<close> of two arguments.\<close>

fun js_ceil :: "jsnum \<Rightarrow> jsnum" where
  "js_ceil (Fin x) = (if x = 0 then Fin 0 else if - 1 < x \<and> x < 0 then NegZero
                      else Fin (of_int \<lceil>x\<rceil>))"
| "js_ceil a = a"

definition js_max :: "jsnum \<Rightarrow> jsnum \<Rightarrow> jsnum" where
  "js_max a b =
     (if is_nan a \<or> is_nan b then NaN
      else if js_lt a b then b
      else if js_lt b a then a
      else if a = NegZero then b else a)"

text \<open>The conversion applied when a number is stored into a \<open>Float32Array\<close>.\<close>

fun f32 :: "jsnum \<Rightarrow> jsnum" where
  "f32 (Fin x) = (if x = 0 then Fin 0 else round32 x)"
| "f32 a = a"

text \<open>The values a \<open>Float32Array\<close> can hold are those the conversion leaves unchanged.\<close>

definition is_f32 :: "jsnum \<Rightarrow> bool" where
  "is_f32 v = (f32 v = v)"

text \<open>An integer-valued property such as \<open>canvas.width\<close> read as a number.\<close>

definition num :: "nat \<Rightarrow> jsnum" where
  "num n = Fin (of_nat n)"


text \<open>The reading of an array cell inside an arithmetic expression: an index outside the
  array yields \<open>undefined\<close>, which arithmetic and typed-array stores convert to NaN.\<close>

definition aget :: "jsnum list \<Rightarrow> nat \<Rightarrow> jsnum" where
  "aget e i = (if i < length e then e ! i else NaN)"

section \<open>The class Matrix3\<close>

text \<open>
  A \<open>Matrix3\<close> object owns one \<open>Float32Array(9)\<close>, reached through its field
  \<open>elements\<close>. Objects are references, so the arrays live in a store: a list of arrays,
  an address being a position in it. \<open>new\<close> allocates the next free position. Every method
  that ends in \<open>return this\<close> returns the store together with the receiver.
\<close>

type_synonym heap = "jsnum list list"

record Matrix3 =
  elements :: nat

text \<open>Modelled from the spec: the class \<open>Vector3\<close>, which \<open>multiplyVector\<close> instantiates, is
  declared nowhere in the sources at hand; it is taken to be the plain triple of numbers
  \<open>x\<close>, \<open>y\<close>, \<open>z\<close> that \<open>multiplyVector\<close> reads from its argument and passes to the
  constructor.\<close>

datatype Vector3 = Vector3 (v_x: jsnum) (v_y: jsnum) (v_z: jsnum)

text \<open>The host's \<open>Math.cos\<close> and \<open>Math.sin\<close> are implementation-approximated functions of
  the host, so they are parameters.\<close>

record math =
  Math_cos :: "jsnum \<Rightarrow> jsnum"
  Math_sin :: "jsnum \<Rightarrow> jsnum"

text \<open>\<open>Math.PI\<close>, the double nearest to \<open>\<pi>\<close>.\<close>

definition Math_PI :: jsnum where
  "Math_PI = Fin (884279719003555 / 281474976710656)"

text \<open>\<open>set\<close> takes its parameters in row-major order and stores them column-major; each
  store into the \<open>Float32Array\<close> rounds to binary32.\<close>

definition set_Matrix3 ::
  "heap \<Rightarrow> Matrix3 \<Rightarrow> jsnum \<Rightarrow> jsnum \<Rightarrow> jsnum \<Rightarrow> jsnum \<Rightarrow> jsnum \<Rightarrow> jsnum \<Rightarrow> jsnum \<Rightarrow> jsnum \<Rightarrow> jsnum
     \<Rightarrow> heap \<times> Matrix3" where
  "set_Matrix3 h this m11 m12 m13 m21 m22 m23 m31 m32 m33 =
     (let e = h ! elements this;
          e = e[0 := f32 m11]; e = e[3 := f32 m12]; e = e[6 := f32 m13];
          e = e[1 := f32 m21]; e = e[4 := f32 m22]; e = e[7 := f32 m23];
          e = e[2 := f32 m31]; e = e[5 := f32 m32]; e = e[8 := f32 m33]
      in (h[elements this := e], this))"

definition makeIdentity :: "heap \<Rightarrow> Matrix3 \<Rightarrow> heap \<times> Matrix3" where
  "makeIdentity h this =
     (let (h, _) = set_Matrix3 h this
        (Fin 1) (Fin 0) (Fin 0)
        (Fin 0) (Fin 1) (Fin 0)
        (Fin 0) (Fin 0) (Fin 1)
      in (h, this))"

text \<open>The nine elements of the identity, in storage order.\<close>

definition identity9 :: "jsnum list" where
  "identity9 = [Fin 1, Fin 0, Fin 0, Fin 0, Fin 1, Fin 0, Fin 0, Fin 0, Fin 1]"

text \<open>The constructor: a fresh array of nine zeros, then \<open>makeIdentity\<close>.\<close>

definition new_Matrix3 :: "heap \<Rightarrow> heap \<times> Matrix3" where
  "new_Matrix3 h =
     (let this = \<lparr>elements = length h\<rparr>;
          h = h @ [replicate 9 (Fin 0)]
      in makeIdentity h this)"

primrec copy_loop :: "nat \<Rightarrow> jsnum list \<Rightarrow> jsnum list \<Rightarrow> jsnum list" where
  "copy_loop 0 src dst = dst"
| "copy_loop (Suc n) src dst = (copy_loop n src dst)[n := f32 (aget src n)]"

text \<open>\<open>copy_loop n\<close> is the loop \<open>for (i = 0; i < n; i++) dst[i] = src[i]\<close>: its last
  iteration, at \<open>i = n - 1\<close>, follows the earlier ones.\<close>

definition clone :: "heap \<Rightarrow> Matrix3 \<Rightarrow> heap \<times> Matrix3" where
  "clone h this =
     (let (h, newMatrix) = new_Matrix3 h
      in (h[elements newMatrix := copy_loop 9 (h ! elements this) (h ! elements newMatrix)],
          newMatrix))"

definition copy :: "heap \<Rightarrow> Matrix3 \<Rightarrow> Matrix3 \<Rightarrow> heap \<times> Matrix3" where
  "copy h this m =
     (h[elements this := copy_loop 9 (h ! elements m) (h ! elements this)], this)"

definition makeScale :: "heap \<Rightarrow> Matrix3 \<Rightarrow> jsnum \<Rightarrow> jsnum \<Rightarrow> heap \<times> Matrix3" where
  "makeScale h this x y =
     (let (h, _) = set_Matrix3 h this
        x (Fin 0) (Fin 0)
        (Fin 0) y (Fin 0)
        (Fin 0) (Fin 0) (Fin 1)
      in (h, this))"

definition makeRotation :: "math \<Rightarrow> heap \<Rightarrow> Matrix3 \<Rightarrow> jsnum \<Rightarrow> heap \<times> Matrix3" where
  "makeRotation M h this degrees =
     (let radians = js_div (js_mul degrees Math_PI) (Fin 180);
          c = Math_cos M radians;
          s = Math_sin M radians;
          (h, _) = set_Matrix3 h this
            c s (Fin 0)
            (js_neg s) c (Fin 0)
            (Fin 0) (Fin 0) (Fin 1)
      in (h, this))"

definition makeTranslation :: "heap \<Rightarrow> Matrix3 \<Rightarrow> jsnum \<Rightarrow> jsnum \<Rightarrow> heap \<times> Matrix3" where
  "makeTranslation h this x y =
     (let (h, _) = set_Matrix3 h this
        (Fin 1) (Fin 0) x
        (Fin 0) (Fin 1) y
        (Fin 0) (Fin 0) (Fin 1)
      in (h, this))"

definition makeOrthographic ::
  "heap \<Rightarrow> Matrix3 \<Rightarrow> jsnum \<Rightarrow> jsnum \<Rightarrow> jsnum \<Rightarrow> jsnum \<Rightarrow> heap \<times> Matrix3" where
  "makeOrthographic h this l r t b =
     (let (h, _) = set_Matrix3 h this
        (js_div (Fin 2) (js_sub r l)) (Fin 0) (Fin 0)
        (Fin 0) (js_div (Fin 2) (js_sub t b)) (Fin 0)
        (js_div (js_neg (js_add r l)) (js_sub r l))
          (js_div (js_neg (js_add t b)) (js_sub t b)) (Fin 1)
      in (h, this))"

primrec scale_loop :: "nat \<Rightarrow> jsnum \<Rightarrow> jsnum list \<Rightarrow> jsnum list" where
  "scale_loop 0 s e = e"
| "scale_loop (Suc n) s e =
     (let e = scale_loop n s e in e[n := f32 (js_mul (aget e n) s)])"

definition multiplyScalar :: "heap \<Rightarrow> Matrix3 \<Rightarrow> jsnum \<Rightarrow> heap \<times> Matrix3" where
  "multiplyScalar h this s =
     (h[elements this := scale_loop 9 s (h ! elements this)], this)"

definition multiplyVector :: "heap \<Rightarrow> Matrix3 \<Rightarrow> Vector3 \<Rightarrow> Vector3" where
  "multiplyVector h this v =
     (let e = h ! elements this
      in Vector3
        (js_add (js_add (js_mul (aget e 0) (v_x v)) (js_mul (aget e 3) (v_y v)))
                (js_mul (aget e 6) (v_z v)))
        (js_add (js_add (js_mul (aget e 1) (v_x v)) (js_mul (aget e 4) (v_y v)))
                (js_mul (aget e 7) (v_z v)))
        (js_add (js_add (js_mul (aget e 2) (v_x v)) (js_mul (aget e 5) (v_y v)))
                (js_mul (aget e 8) (v_z v))))"

text \<open>The dot product \<open>a[i] * b[j] + a[i+3] * b[j+1] + a[i+6] * b[j+2]\<close> that each of the
  nine arguments of \<open>set\<close> in \<open>multiplyMatrix\<close> is.\<close>

definition dot3 :: "jsnum list \<Rightarrow> jsnum list \<Rightarrow> nat \<Rightarrow> nat \<Rightarrow> jsnum" where
  "dot3 a b i j =
     js_add (js_add (js_mul (aget a i) (aget b j)) (js_mul (aget a (i + 3)) (aget b (j + 1))))
            (js_mul (aget a (i + 6)) (aget b (j + 2)))"

definition multiplyMatrix :: "heap \<Rightarrow> Matrix3 \<Rightarrow> Matrix3 \<Rightarrow> heap \<times> Matrix3" where
  "multiplyMatrix h this m =
     (let a = h ! elements this;
          b = h ! elements m;
          (h, _) = set_Matrix3 h this
            (dot3 a b 0 0) (dot3 a b 0 3) (dot3 a b 0 6)
            (dot3 a b 1 0) (dot3 a b 1 3) (dot3 a b 1 6)
            (dot3 a b 2 0) (dot3 a b 2 3) (dot3 a b 2 6)
      in (h, this))"


text \<open>
  The calls that write to the receiver: \<open>copy\<close>, \<open>set\<close>, the five construction methods,
  \<open>multiplyScalar\<close> and \<open>multiplyMatrix\<close>, with their arguments. \<open>mutate\<close> performs one
  call and returns the store, \<open>mutate_all\<close> a sequence of calls on the same receiver.
\<close>

datatype mutation =
    Copy Matrix3
  | Set jsnum jsnum jsnum jsnum jsnum jsnum jsnum jsnum jsnum
  | MakeIdentity
  | MakeScale jsnum jsnum
  | MakeRotation jsnum
  | MakeTranslation jsnum jsnum
  | MakeOrthographic jsnum jsnum jsnum jsnum
  | MultiplyScalar jsnum
  | MultiplyMatrix Matrix3

fun mutate :: "math \<Rightarrow> heap \<Rightarrow> Matrix3 \<Rightarrow> mutation \<Rightarrow> heap" where
  "mutate M h this (Copy m) = fst (copy h this m)"
| "mutate M h this (Set m11 m12 m13 m21 m22 m23 m31 m32 m33) =
     fst (set_Matrix3 h this m11 m12 m13 m21 m22 m23 m31 m32 m33)"
| "mutate M h this MakeIdentity = fst (makeIdentity h this)"
| "mutate M h this (MakeScale x y) = fst (makeScale h this x y)"
| "mutate M h this (MakeRotation degrees) = fst (makeRotation M h this degrees)"
| "mutate M h this (MakeTranslation x y) = fst (makeTranslation h this x y)"
| "mutate M h this (MakeOrthographic l r t b) = fst (makeOrthographic h this l r t b)"
| "mutate M h this (MultiplyScalar s) = fst (multiplyScalar h this s)"
| "mutate M h this (MultiplyMatrix m) = fst (multiplyMatrix h this m)"

fun mutate_all :: "math \<Rightarrow> heap \<Rightarrow> Matrix3 \<Rightarrow> mutation list \<Rightarrow> heap" where
  "mutate_all M h this [] = h"
| "mutate_all M h this (c # cs) = mutate_all M (mutate M h this c) this cs"

section \<open>The script: global state and host\<close>

text \<open>
  The globals of the script. \<open>gl\<close>, \<open>program\<close>, \<open>vao\<close> and the uniform locations are
  assigned together by an uninterrupted run of \<open>main\<close> and are \<open>undefined\<close> before; they
  form the record \<open>webgl\<close>, which also keeps what the script has handed to the rendering
  context: the contents of the position buffer, the uniforms, the count of the last draw
  call. \<open>pMatrix\<close> is \<open>undefined\<close> until \<open>resizeCanvas\<close> has run. \<open>console\<close> collects the
  messages of \<open>console.error\<close>, \<open>frames_requested\<close> counts the calls of
  \<open>requestAnimationFrame\<close>.
\<close>

datatype shader_type = VERTEX_SHADER | FRAGMENT_SHADER

datatype shader_source = vertexShaderSource | fragmentShaderSource

datatype shader = Shader shader_type shader_source

datatype program = Program shader shader

record webgl =
  current_program :: "program option"
  positionBuffer :: "jsnum list"
  vertexCount :: jsnum
  u_mpMatrix :: "jsnum list"
  u_mousePosition :: "jsnum \<times> jsnum"
  u_time :: jsnum
  drawn :: "jsnum option"

record state =
  canvas_width :: nat
  canvas_height :: nat
  mouseX :: jsnum
  mouseY :: jsnum
  startTime :: jsnum
  pMatrix :: "Matrix3 option"
  store :: heap
  gl :: "webgl option"
  console :: "string list"
  frames_requested :: nat

text \<open>What the browser decides: the window size, whether the canvas yields a WebGL2
  context, the outcome of compiling each of the two shader sources, and the outcome of
  linking the one program the script creates.\<close>

record host =
  innerWidth :: nat
  innerHeight :: nat
  getContext_webgl2 :: bool
  COMPILE_STATUS :: "shader_source \<Rightarrow> bool"
  shaderInfoLog :: "shader_source \<Rightarrow> string"
  LINK_STATUS :: bool
  programInfoLog :: string

datatype js_error = Error string | TypeError string

text \<open>The state when the script has been loaded and no event has been handled: a canvas
  element has its default size of 300 by 150.\<close>

definition initial_state :: "jsnum \<Rightarrow> state" where
  "initial_state now =
     \<lparr>canvas_width = 300, canvas_height = 150, mouseX = Fin 0, mouseY = Fin 0,
      startTime = now, pMatrix = None, store = [], gl = None, console = [],
      frames_requested = 0\<rparr>"

definition GRID_SIZE :: jsnum where
  "GRID_SIZE = Fin 70"

subsection \<open>Pointer\<close>

definition updatePointerPosition :: "jsnum \<Rightarrow> jsnum \<Rightarrow> state \<Rightarrow> state" where
  "updatePointerPosition x y st =
     (let st = st\<lparr>mouseX := js_sub x (js_div (num (canvas_width st)) (Fin 2))\<rparr>;
          st = st\<lparr>mouseY := js_sub (js_div (num (canvas_height st)) (Fin 2)) y\<rparr>
      in st)"

text \<open>The listeners of \<open>mousemove\<close>, and of \<open>touchmove\<close> and \<open>touchstart\<close>, whose first
  touch may be absent.\<close>

definition on_mousemove :: "jsnum \<Rightarrow> jsnum \<Rightarrow> state \<Rightarrow> state" where
  "on_mousemove clientX clientY st = updatePointerPosition clientX clientY st"

definition on_touch :: "(jsnum \<times> jsnum) option \<Rightarrow> state \<Rightarrow> state" where
  "on_touch touch st =
     (case touch of None \<Rightarrow> st
      | Some (clientX, clientY) \<Rightarrow> updatePointerPosition clientX clientY st)"

subsection \<open>Resizing\<close>

definition resizeCanvas :: "host \<Rightarrow> state \<Rightarrow> state" where
  "resizeCanvas H st =
     (let st = st\<lparr>canvas_width := innerWidth H\<rparr>;
          st = st\<lparr>canvas_height := innerHeight H\<rparr>;
          (h, m) = new_Matrix3 (store st);
          (h, m) = makeOrthographic h m
             (js_div (js_neg (num (canvas_width st))) (Fin 2))
             (js_div (num (canvas_width st)) (Fin 2))
             (js_div (num (canvas_height st)) (Fin 2))
             (js_div (js_neg (num (canvas_height st))) (Fin 2))
      in st\<lparr>store := h, pMatrix := Some m\<rparr>)"

subsection \<open>The grid\<close>

text \<open>
  The two nested \<open>for\<close> loops of \<open>rebuildGrid\<close>. The counters \<open>x\<close> and \<open>y\<close> start at 0 and
  are incremented by one, so they are natural numbers; the loop conditions compare them with
  \<open>cols\<close> and \<open>rows\<close> as JavaScript numbers, and a loop whose bound is \<open>Infinity\<close> does not
  end: the loops are partial functions.
\<close>

partial_function (option) cols_loop ::
  "jsnum \<Rightarrow> jsnum \<Rightarrow> state \<Rightarrow> nat \<Rightarrow> nat \<Rightarrow> jsnum list \<Rightarrow> jsnum list option" where
  "cols_loop step cols st y x positions =
     (if js_lt (num x) cols then
        cols_loop step cols st y (Suc x)
          (positions @
            [js_add (js_sub (js_mul (num x) step) (js_div (num (canvas_width st)) (Fin 2)))
                    (js_div step (Fin 2)),
             js_add (js_sub (js_mul (num y) step) (js_div (num (canvas_height st)) (Fin 2)))
                    (js_div step (Fin 2))])
      else Some positions)"

partial_function (option) rows_loop ::
  "jsnum \<Rightarrow> jsnum \<Rightarrow> jsnum \<Rightarrow> state \<Rightarrow> nat \<Rightarrow> jsnum list \<Rightarrow> jsnum list option" where
  "rows_loop step cols rows st y positions =
     (if js_lt (num y) rows then
        Option.bind (cols_loop step cols st y 0 positions)
          (\<lambda>positions. rows_loop step cols rows st (Suc y) positions)
      else Some positions)"

declare cols_loop.simps [code]
declare rows_loop.simps [code]

definition grid_step :: "state \<Rightarrow> jsnum" where
  "grid_step st =
     (let maxDim = js_max (num (canvas_width st)) (num (canvas_height st))
      in js_div maxDim (js_sub GRID_SIZE (Fin 1)))"

definition grid_cols :: "state \<Rightarrow> jsnum" where
  "grid_cols st = js_ceil (js_div (num (canvas_width st)) (grid_step st))"

definition grid_rows :: "state \<Rightarrow> jsnum" where
  "grid_rows st = js_ceil (js_div (num (canvas_height st)) (grid_step st))"

text \<open>
  \<open>rebuildGrid\<close>: \<open>None\<close> when the loops do not end; otherwise the state with the new buffer
  and vertex count, or the \<open>TypeError\<close> of reading a property of the \<open>undefined\<close> \<open>gl\<close>.
  The buffer receives \<open>new Float32Array(positions)\<close>, every coordinate rounded to binary32.
\<close>

definition rebuildGrid :: "state \<Rightarrow> (js_error + state) option" where
  "rebuildGrid st =
     (let step = grid_step st;
          cols = grid_cols st;
          rows = grid_rows st
      in Option.bind (rows_loop step cols rows st 0 [])
          (\<lambda>positions.
             Some (case gl st of
                 None \<Rightarrow> Inl (TypeError ''Cannot read properties of undefined'')
               | Some g \<Rightarrow>
                   Inr (st\<lparr>gl := Some (g\<lparr>positionBuffer := map f32 positions,
                       vertexCount := js_div (num (length positions)) (Fin 2)\<rparr>)\<rparr>))))"

text \<open>The listener of \<open>resize\<close>.\<close>

definition on_resize :: "host \<Rightarrow> state \<Rightarrow> (js_error + state) option" where
  "on_resize H st = rebuildGrid (resizeCanvas H st)"

text \<open>The number of points a rebuild leaves in \<open>vao.vertexCount\<close>, when it completes.\<close>

definition emitted_points :: "state \<Rightarrow> jsnum option" where
  "emitted_points st =
     (case rebuildGrid st of
        Some (Inr st') \<Rightarrow> map_option vertexCount (gl st')
      | _ \<Rightarrow> None)"

subsection \<open>Start-up\<close>

definition createShader :: "host \<Rightarrow> state \<Rightarrow> shader_type \<Rightarrow> shader_source \<Rightarrow> state \<times> shader" where
  "createShader H st type source =
     (let shader = Shader type source;
          st = (if \<not> COMPILE_STATUS H source
                then st\<lparr>console := console st @ [shaderInfoLog H source]\<rparr> else st)
      in (st, shader))"

definition createProgram :: "host \<Rightarrow> state \<Rightarrow> shader \<Rightarrow> shader \<Rightarrow> state \<times> program" where
  "createProgram H st vs fs =
     (let program = Program vs fs;
          st = (if \<not> LINK_STATUS H
                then st\<lparr>console := console st @ [programInfoLog H]\<rparr> else st)
      in (st, program))"

text \<open>A context as \<open>getContext\<close> hands it out: no program, an empty buffer.\<close>

definition fresh_context :: webgl where
  "fresh_context =
     \<lparr>current_program = None, positionBuffer = [], vertexCount = Fin 0,
      u_mpMatrix = [], u_mousePosition = (Fin 0, Fin 0), u_time = Fin 0, drawn = None\<rparr>"

definition getWebGL2Context :: "host \<Rightarrow> js_error + webgl" where
  "getWebGL2Context H =
     (if \<not> getContext_webgl2 H then Inl (Error ''WebGL2 not supported.'')
      else Inr fresh_context)"

definition main :: "host \<Rightarrow> state \<Rightarrow> (js_error + state) option" where
  "main H st =
     (let st = resizeCanvas H st
      in case getWebGL2Context H of
           Inl e \<Rightarrow> Some (Inl e)
         | Inr g \<Rightarrow>
            (let st = st\<lparr>gl := Some g\<rparr>;
                 (st, vs) = createShader H st VERTEX_SHADER vertexShaderSource;
                 (st, fs) = createShader H st FRAGMENT_SHADER fragmentShaderSource;
                 (st, program) = createProgram H st vs fs;
                 st = st\<lparr>gl := map_option (\<lambda>g. g\<lparr>current_program := Some program\<rparr>) (gl st)\<rparr>
             in Option.bind (rebuildGrid st)
                  (\<lambda>r. Some (case r of
                      Inl e \<Rightarrow> Inl e
                    | Inr st \<Rightarrow> Inr (st\<lparr>frames_requested := Suc (frames_requested st)\<rparr>)))))"

subsection \<open>One frame\<close>

text \<open>The literal \<open>0.001\<close> denotes the double nearest to one thousandth.\<close>

definition lit_0_001 :: jsnum where
  "lit_0_001 = round64 (1 / 1000)"

text \<open>\<open>updateAndRender\<close>, given the reading of \<open>performance.now()\<close>. Uniforms are 32-bit
  floats. The \<open>TypeError\<close>s are those of calling a method of an \<open>undefined\<close> global.\<close>

definition updateAndRender :: "jsnum \<Rightarrow> state \<Rightarrow> js_error + state" where
  "updateAndRender now st =
     (case gl st of
        None \<Rightarrow> Inl (TypeError ''Cannot read properties of undefined'')
      | Some g \<Rightarrow>
         (let time = js_mul (js_sub now (startTime st)) lit_0_001;
              (h, mMatrix) = new_Matrix3 (store st);
              (h, mMatrix) = makeTranslation h mMatrix (Fin 0) (Fin 0)
          in case pMatrix st of
               None \<Rightarrow> Inl (TypeError ''Cannot read properties of undefined'')
             | Some p \<Rightarrow>
                (let (h, c) = clone h p;
                     (h, mpMatrix) = multiplyMatrix h c mMatrix;
                     g = g\<lparr>u_mpMatrix := h ! elements mpMatrix\<rparr>;
                     g = g\<lparr>u_mousePosition := (f32 (mouseX st), f32 (mouseY st))\<rparr>;
                     g = g\<lparr>u_time := f32 time\<rparr>;
                     g = g\<lparr>drawn := Some (vertexCount g)\<rparr>
                 in Inr (st\<lparr>store := h, gl := Some g,
                          frames_requested := Suc (frames_requested st)\<rparr>))))"

text \<open>The script is running once \<open>main\<close> has obtained the context: \<open>gl\<close> and \<open>pMatrix\<close> are
  defined.\<close>

definition running :: "state \<Rightarrow> bool" where
  "running st = (gl st \<noteq> None \<and> pMatrix st \<noteq> None)"

section \<open>The vertex shader\<close>

text \<open>
  The shader declares \<open>precision highp float\<close>: its numbers are IEEE 754 binary32 values,
  kept in the type of the script's numbers. Addition, subtraction, multiplication and
  division compute the exact result and round it to the nearest binary32 value, ties to
  even, with the IEEE 754 rules for zeros, infinities and NaN; each operation of the source
  rounds on its own. (GLSL asks this of addition, subtraction and multiplication, and lets
  a division be off by 2.5 units in the last place; the division here is the correctly
  rounded one.)
\<close>

definition glsl_add :: "jsnum \<Rightarrow> jsnum \<Rightarrow> jsnum" where
  "glsl_add a b =
     (if is_nan a \<or> is_nan b then NaN
      else if is_inf a then (if is_inf b \<and> is_neg a \<noteq> is_neg b then NaN else a)
      else if is_inf b then b
      else if is_zero a \<and> is_zero b then signed_zero (is_neg a \<and> is_neg b)
      else let s = rat_of a + rat_of b in if s = 0 then Fin 0 else round32 s)"

definition glsl_sub :: "jsnum \<Rightarrow> jsnum \<Rightarrow> jsnum" where
  "glsl_sub a b = glsl_add a (js_neg b)"

definition glsl_mul :: "jsnum \<Rightarrow> jsnum \<Rightarrow> jsnum" where
  "glsl_mul a b =
     (if is_nan a \<or> is_nan b then NaN
      else if is_inf a \<or> is_inf b then
        (if is_zero a \<or> is_zero b then NaN else signed_inf (is_neg a \<noteq> is_neg b))
      else if is_zero a \<or> is_zero b then signed_zero (is_neg a \<noteq> is_neg b)
      else round32 (rat_of a * rat_of b))"

definition glsl_div :: "jsnum \<Rightarrow> jsnum \<Rightarrow> jsnum" where
  "glsl_div a b =
     (if is_nan a \<or> is_nan b then NaN
      else if is_inf a then (if is_inf b then NaN else signed_inf (is_neg a \<noteq> is_neg b))
      else if is_inf b then signed_zero (is_neg a \<noteq> is_neg b)
      else if is_zero b then (if is_zero a then NaN else signed_inf (is_neg a \<noteq> is_neg b))
      else if is_zero a then signed_zero (is_neg a \<noteq> is_neg b)
      else round32 (rat_of a / rat_of b))"

text \<open>\<open>max (x, y)\<close> is \<open>y\<close> if \<open>x < y\<close> and \<open>x\<close> otherwise, \<open>min (x, y)\<close> is \<open>y\<close> if \<open>y < x\<close> and
  \<open>x\<close> otherwise, and \<open>clamp (x, lo, hi)\<close> is \<open>min (max (x, lo), hi)\<close>.\<close>

definition glsl_max :: "jsnum \<Rightarrow> jsnum \<Rightarrow> jsnum" where
  "glsl_max x y = (if js_lt x y then y else x)"

definition glsl_min :: "jsnum \<Rightarrow> jsnum \<Rightarrow> jsnum" where
  "glsl_min x y = (if js_lt y x then y else x)"

definition glsl_clamp :: "jsnum \<Rightarrow> jsnum \<Rightarrow> jsnum \<Rightarrow> jsnum" where
  "glsl_clamp x lo hi = glsl_min (glsl_max x lo) hi"

text \<open>
  \<open>smoothstep\<close> by the formula of the GLSL specification, each operation rounded. The
  specification leaves the result undefined when \<open>edge0 \<ge> edge1\<close>; the shader calls it with
  the edges 150 and 0 and so relies on the formula being evaluated as written.
\<close>

definition smoothstep :: "jsnum \<Rightarrow> jsnum \<Rightarrow> jsnum \<Rightarrow> jsnum" where
  "smoothstep edge0 edge1 x =
     (let t = glsl_clamp (glsl_div (glsl_sub x edge0) (glsl_sub edge1 edge0)) (Fin 0) (Fin 1)
      in glsl_mul (glsl_mul t t) (glsl_sub (Fin 3) (glsl_mul (Fin 2) t)))"

text \<open>
  GLSL fixes \<open>length\<close>, \<open>exp\<close> and \<open>sin\<close> only up to a precision, and not the order in which
  \<open>length\<close> rounds. They are fields of the graphics processor the shader runs on: what is
  proved for every \<open>gpu\<close> holds whatever the implementation.
\<close>

type_synonym vec2 = "jsnum \<times> jsnum"

record gpu =
  gpu_length :: "vec2 \<Rightarrow> jsnum"
  gpu_exp :: "jsnum \<Rightarrow> jsnum"
  gpu_sin :: "jsnum \<Rightarrow> jsnum"

definition vec2_sub :: "vec2 \<Rightarrow> vec2 \<Rightarrow> vec2" where
  "vec2_sub a b = (glsl_sub (fst a) (fst b), glsl_sub (snd a) (snd b))"

definition vec2_add :: "vec2 \<Rightarrow> vec2 \<Rightarrow> vec2" where
  "vec2_add a b = (glsl_add (fst a) (fst b), glsl_add (snd a) (snd b))"

definition vec2_scale :: "vec2 \<Rightarrow> jsnum \<Rightarrow> vec2" where
  "vec2_scale a k = (glsl_mul (fst a) k, glsl_mul (snd a) k)"

text \<open>\<open>normalize\<close> divides the vector by its length. Where the computed length is a zero
  the components are quotients by zero, infinities or NaN on a processor that has them:
  no direction, and no result here (\<open>None\<close>).\<close>

definition glsl_normalize :: "gpu \<Rightarrow> vec2 \<Rightarrow> vec2 option" where
  "glsl_normalize G a =
     (let len = gpu_length G a
      in if is_zero len then None else Some (glsl_div (fst a) len, glsl_div (snd a) len))"

text \<open>The body of the shader's \<open>main\<close> up to the assignment of \<open>displaced\<close>.\<close>

definition displaced :: "gpu \<Rightarrow> vec2 \<Rightarrow> jsnum \<Rightarrow> vec2 \<Rightarrow> vec2 option" where
  "displaced G u_mousePos u_t a_position =
     (let radius = Fin 150;
          maxDisplacement = Fin 60;
          toFrom = vec2_sub a_position u_mousePos;
          dist = gpu_length G toFrom
      in case glsl_normalize G toFrom of
           None \<Rightarrow> None
         | Some dir \<Rightarrow>
            (let falloff = smoothstep radius (Fin 0) dist;
                 t = glsl_mul u_t (Fin 5);
                 decay = glsl_add (glsl_mul (glsl_mul
                           (gpu_exp G (glsl_mul (glsl_mul (Fin (- 3)) falloff) u_t))
                           (gpu_sin G t)) (Fin (1 / 2))) (Fin 1)
             in Some (vec2_add a_position
                  (vec2_scale (vec2_scale (vec2_scale dir maxDisplacement) falloff) decay))))"

text \<open>The whole of the shader's \<open>main\<close>: \<open>gl_Position\<close> and \<open>gl_PointSize\<close>. The matrix
  arrives column-major, as \<open>uniformMatrix3fv\<close> was called without transposition.\<close>

definition vertex_main ::
  "gpu \<Rightarrow> jsnum list \<Rightarrow> vec2 \<Rightarrow> jsnum \<Rightarrow> vec2
     \<Rightarrow> ((jsnum \<times> jsnum \<times> jsnum \<times> jsnum) \<times> jsnum) option" where
  "vertex_main G u_mp u_mousePos u_t a_position =
     (case displaced G u_mousePos u_t a_position of
        None \<Rightarrow> None
      | Some d \<Rightarrow>
         (let pos_x = glsl_add (glsl_add (glsl_mul (aget u_mp 0) (fst d))
                         (glsl_mul (aget u_mp 3) (snd d))) (glsl_mul (aget u_mp 6) (Fin 1));
              pos_y = glsl_add (glsl_add (glsl_mul (aget u_mp 1) (fst d))
                         (glsl_mul (aget u_mp 4) (snd d))) (glsl_mul (aget u_mp 7) (Fin 1))
          in Some ((pos_x, pos_y, Fin 0, Fin 1), Fin (3 / 4))))"

subsection \<open>A graphics processor that rounds correctly\<close>

text \<open>
  One implementation among those GLSL admits: \<open>length\<close> is the square root of the sum of the
  squares, every operation rounded to the nearest binary32 value, and \<open>exp\<close> and \<open>sin\<close> are
  the exact functions rounded to the nearest binary32 value.
\<close>

text \<open>The integer square root, and with it the binary32 value nearest to the square root
  of a rational: with \<open>2^e \<le> sqrt x < 2^(e+1)\<close> and \<open>q = 2^(e - 23)\<close>, the multiple \<open>n * q\<close> of
  \<open>q\<close> with \<open>n\<close> the integer nearest to \<open>sqrt x / q\<close>, that is
  \<open>\<lfloor>(\<lfloor>sqrt (4 x / q\<^sup>2)\<rfloor> + 1) / 2\<rfloor>\<close>. The square root of a binary32 value is never
  halfway between two binary32 values.\<close>

function isqrt :: "int \<Rightarrow> int" where
  "isqrt k = (if k < 1 then 0
              else let r = 2 * isqrt (k div 4) in if (r + 1) * (r + 1) \<le> k then r + 1 else r)"
  by pat_completeness auto
termination
  by (relation "measure nat") auto

declare isqrt.simps [simp del]

fun glsl_sqrt :: "jsnum \<Rightarrow> jsnum" where
  "glsl_sqrt (Fin x) =
     (if x < 0 then NaN else if x = 0 then Fin 0
      else let e = ilog2 x div 2; q = pow2 (e - 23);
               n = (isqrt \<lfloor>4 * (x / (q * q))\<rfloor> + 1) div 2
           in Fin (q * of_int n))"
| "glsl_sqrt NegZero = NegZero"
| "glsl_sqrt PosInf = PosInf"
| "glsl_sqrt NegInf = NaN"
| "glsl_sqrt NaN = NaN"

definition glsl_length :: "vec2 \<Rightarrow> jsnum" where
  "glsl_length a =
     glsl_sqrt (glsl_add (glsl_mul (fst a) (fst a)) (glsl_mul (snd a) (snd a)))"

text \<open>The rounding of a real number to binary32.\<close>

definition round_half_even_real :: "real \<Rightarrow> int" where
  "round_half_even_real y = (let f = \<lfloor>y\<rfloor>; d = y - of_int f
     in if d < 1 / 2 then f else if 1 / 2 < d then f + 1 else if even f then f else f + 1)"

definition round32_real :: "real \<Rightarrow> jsnum" where
  "round32_real x =
     (if x = 0 then Fin 0
      else let e = max \<lfloor>log 2 \<bar>x\<bar>\<rfloor> (- 126);
               n = round_half_even_real (x / 2 powr (of_int e - 23));
               r = pow2 (e - 23) * of_int n
           in if pow2 128 \<le> \<bar>r\<bar> then signed_inf (x < 0)
              else if r = 0 then signed_zero (x < 0) else Fin r)"

fun glsl_exp :: "jsnum \<Rightarrow> jsnum" where
  "glsl_exp (Fin x) = round32_real (exp (of_rat x))"
| "glsl_exp NegZero = Fin 1"
| "glsl_exp PosInf = PosInf"
| "glsl_exp NegInf = Fin 0"
| "glsl_exp NaN = NaN"

fun glsl_sin :: "jsnum \<Rightarrow> jsnum" where
  "glsl_sin (Fin x) = round32_real (sin (of_rat x))"
| "glsl_sin NegZero = NegZero"
| "glsl_sin a = NaN"

definition ieee_gpu :: gpu where
  "ieee_gpu = \<lparr>gpu_length = glsl_length, gpu_exp = glsl_exp, gpu_sin = glsl_sin\<rparr>"

section \<open>Properties of rounding\<close>

lemma bitlen_pos: "0 < a \<Longrightarrow> bitlen a = Suc (bitlen (a div 2))"
  by (subst bitlen.simps) simp

lemma bitlen_nonpos: "a \<le> 0 \<Longrightarrow> bitlen a = 0"
  by (subst bitlen.simps) simp

lemma bitlen_bounds: "0 < a \<Longrightarrow> 2 ^ (bitlen a - 1) \<le> a \<and> a < 2 ^ bitlen a"
proof (induction a rule: bitlen.induct)
  case (1 a)
  show ?case
  proof (cases "a div 2 = 0")
    case True
    with "1.prems" have "a = 1" by arith
    then show ?thesis by (simp add: bitlen_pos bitlen_nonpos)
  next
    case False
    with "1.prems" have pos: "0 < a div 2" by arith
    from "1.IH" "1.prems" pos
    have IH: "2 ^ (bitlen (a div 2) - 1) \<le> a div 2" "a div 2 < 2 ^ bitlen (a div 2)"
      by auto
    have bl: "bitlen a = Suc (bitlen (a div 2))" using "1.prems" by (rule bitlen_pos)
    have "0 < bitlen (a div 2)" using pos by (simp add: bitlen_pos)
    then obtain k where k: "bitlen (a div 2) = Suc k" by (cases "bitlen (a div 2)") auto
    from IH k have "2 * 2 ^ k \<le> 2 * (a div 2)" by simp
    also have "\<dots> \<le> a" by arith
    finally have lo: "2 ^ (bitlen a - 1) \<le> a" by (simp add: bl k)
    from IH(2) have "a div 2 + 1 \<le> 2 ^ bitlen (a div 2)" by simp
    then have "2 * (a div 2) + 2 \<le> 2 * 2 ^ bitlen (a div 2)" by simp
    moreover have "a < 2 * (a div 2) + 2" by arith
    ultimately have "a < 2 ^ bitlen a" by (simp add: bl)
    with lo show ?thesis by simp
  qed
qed

lemma pow2_powi: "pow2 e = 2 powi e"
  by (simp add: pow2_def power_int_def field_simps)

lemma pow2_pos [simp]: "0 < pow2 e"
  by (simp add: pow2_def)

lemma pow2_nonzero [simp]: "pow2 e \<noteq> 0"
  by (simp add: pow2_def)

lemma abs_pow2 [simp]: "\<bar>pow2 e\<bar> = pow2 e"
  by (simp add: pow2_def)

lemma pow2_add: "pow2 (a + b) = pow2 a * pow2 b"
  by (simp add: pow2_powi power_int_add)

lemma pow2_diff: "pow2 (a - b) = pow2 a / pow2 b"
  by (simp add: pow2_powi power_int_diff)

lemma pow2_mono: "a \<le> b \<Longrightarrow> pow2 a \<le> pow2 b"
  by (simp add: pow2_powi power_int_increasing)

lemma pow2_less_cancel: "pow2 a < pow2 b \<Longrightarrow> a < b"
  using pow2_mono[of b a] by (cases "a < b") auto

lemma pow2_of_nat: "pow2 (int n) = 2 ^ n"
  by (simp add: pow2_def)

lemma pow2_nonneg_int: "0 \<le> j \<Longrightarrow> pow2 j = of_int (2 ^ nat j)"
  by (simp add: pow2_def)

lemma of_int_pow2_bounds:
  assumes "0 < l" and "2 ^ (l - 1) \<le> a" and "a < 2 ^ l"
  shows "pow2 (int l - 1) \<le> of_int a" and "of_int a < pow2 (int l)"
proof -
  have "pow2 (int l - 1) = of_int (2 ^ (l - 1))"
    using assms(1) pow2_of_nat[of "l - 1"] by (simp add: of_nat_diff)
  also have "\<dots> \<le> of_int a" using assms(2) by (simp only: of_int_le_iff)
  finally show "pow2 (int l - 1) \<le> of_int a" .
  have "(of_int a :: rat) < of_int (2 ^ l)" using assms(3) by (simp only: of_int_less_iff)
  then show "of_int a < pow2 (int l)" by (simp add: pow2_of_nat)
qed

lemma ilog2_correct:
  assumes "0 < x"
  shows "pow2 (ilog2 x) \<le> x \<and> x < pow2 (ilog2 x + 1)"
proof -
  obtain a b where q: "quotient_of x = (a, b)" by (cases "quotient_of x")
  then have b: "0 < b" and x: "x = of_int a / of_int b"
    using quotient_of_denom_pos quotient_of_div by auto
  from assms b x have a: "0 < a" by (simp add: zero_less_divide_iff)
  define la lb where "la = bitlen a" and "lb = bitlen b"
  define d where "d = int la - int lb"
  have la: "0 < la" using a by (simp add: la_def bitlen_pos)
  have lb: "0 < lb" using b by (simp add: lb_def bitlen_pos)
  from bitlen_bounds[OF a] have "2 ^ (la - 1) \<le> a" "a < 2 ^ la" by (auto simp: la_def)
  from of_int_pow2_bounds[OF la this]
  have ra1: "pow2 (int la - 1) \<le> of_int a" and ra2: "of_int a < pow2 (int la)" .
  from bitlen_bounds[OF b] have "2 ^ (lb - 1) \<le> b" "b < 2 ^ lb" by (auto simp: lb_def)
  from of_int_pow2_bounds[OF lb this]
  have rb1: "pow2 (int lb - 1) \<le> of_int b" and rb2: "of_int b < pow2 (int lb)" .
  have bpos: "(0::rat) < of_int b" using b by simp
  have up: "x < pow2 (d + 1)"
  proof -
    have "of_int a < pow2 (int la)" by (rule ra2)
    also have "pow2 (int la) = pow2 (d + 1) * pow2 (int lb - 1)"
      by (simp add: d_def pow2_add[symmetric])
    also have "\<dots> \<le> pow2 (d + 1) * of_int b"
      using rb1 by (simp add: mult_left_mono)
    finally show ?thesis using bpos by (simp add: x pos_divide_less_eq)
  qed
  have low: "pow2 (d - 1) < x"
  proof -
    have "pow2 (d - 1) * of_int b < pow2 (d - 1) * pow2 (int lb)"
      using rb2 by (simp add: mult_strict_left_mono)
    also have "\<dots> = pow2 (int la - 1)" by (simp add: d_def pow2_add[symmetric])
    also have "\<dots> \<le> of_int a" by (rule ra1)
    finally show ?thesis using bpos by (simp add: x pos_less_divide_eq)
  qed
  have il: "ilog2 x = (if pow2 d \<le> x then d else d - 1)"
    by (simp add: ilog2_def q d_def la_def lb_def Let_def)
  show ?thesis
  proof (cases "pow2 d \<le> x")
    case True
    with il up show ?thesis by simp
  next
    case False
    with il low show ?thesis by simp
  qed
qed

lemma ilog2_eqI:
  assumes "pow2 e \<le> x" and "x < pow2 (e + 1)"
  shows "ilog2 x = e"
proof -
  have pos: "0 < x" using assms(1) pow2_pos[of e] by (rule less_le_trans[rotated])
  from ilog2_correct[OF pos] have c: "pow2 (ilog2 x) \<le> x" "x < pow2 (ilog2 x + 1)" by auto
  have "pow2 (ilog2 x) < pow2 (e + 1)" using c(1) assms(2) by simp
  then have "ilog2 x < e + 1" by (rule pow2_less_cancel)
  moreover have "pow2 e < pow2 (ilog2 x + 1)" using c(2) assms(1) by simp
  then have "e < ilog2 x + 1" by (rule pow2_less_cancel)
  ultimately show ?thesis by simp
qed

lemma round_half_even_near:
  assumes "\<bar>y - of_int n\<bar> < 1 / 2"
  shows "round_half_even y = n"
proof (cases "y < of_int n")
  case True
  with assms have "of_int (n - 1) \<le> y" "y < of_int (n - 1) + 1" by auto
  then have f: "\<lfloor>y\<rfloor> = n - 1" by (simp only: floor_unique)
  with assms True show ?thesis by (auto simp: round_half_even_def Let_def)
next
  case False
  with assms have "of_int n \<le> y" "y < of_int n + 1" by auto
  then have f: "\<lfloor>y\<rfloor> = n" by (simp only: floor_unique)
  with assms False show ?thesis by (auto simp: round_half_even_def Let_def)
qed

lemma round_half_even_of_int [simp]: "round_half_even (of_int n) = n"
  by (rule round_half_even_near) simp

lemma round_half_even_ge:
  assumes "of_int n \<le> y"
  shows "n \<le> round_half_even y"
proof -
  have "n \<le> \<lfloor>y\<rfloor>" using assms by (simp add: le_floor_iff)
  then show ?thesis by (auto simp: round_half_even_def Let_def)
qed

lemma round_half_even_le:
  assumes "y \<le> of_int n"
  shows "round_half_even y \<le> n"
proof (cases "y = of_int n")
  case True
  then show ?thesis by simp
next
  case False
  with assms have "y < of_int n" by simp
  then have "\<lfloor>y\<rfloor> < n" by (simp add: floor_less_iff)
  then show ?thesis by (auto simp: round_half_even_def Let_def)
qed

text \<open>A certificate for one rounding: the exponent \<open>e\<close> and the integer \<open>n\<close> nearest to the
  scaled argument determine the result.\<close>

lemma round_to_near:
  assumes "pow2 e \<le> \<bar>x\<bar>" and "\<bar>x\<bar> < pow2 (e + 1)"
    and "q = pow2 (max e emin - int p + 1)"
    and "\<bar>x / q - of_int n\<bar> < 1 / 2"
  shows "round_to p emin x = q * of_int n"
proof -
  have "ilog2 \<bar>x\<bar> = e" using assms(1,2) by (rule ilog2_eqI)
  then show ?thesis
    using assms(3) round_half_even_near[OF assms(4)] by (simp add: round_to_def Let_def)
qed

text \<open>The values \<open>m * 2^k\<close> with \<open>|m| < 2^p\<close> and \<open>k\<close> not below the least exponent are
  representable: rounding returns them unchanged.\<close>

lemma round_to_exact:
  assumes m: "m \<noteq> 0" "\<bar>m\<bar> < 2 ^ p" and k: "emin - int p + 1 \<le> k"
    and x: "x = of_int m * pow2 k"
  shows "round_to p emin x = x"
proof -
  define e where "e = ilog2 \<bar>x\<bar>"
  have ax: "\<bar>x\<bar> = of_int \<bar>m\<bar> * pow2 k" by (simp add: x abs_mult)
  have xpos: "0 < \<bar>x\<bar>" using m(1) by (simp add: x)
  from ilog2_correct[OF xpos] have e1: "pow2 e \<le> \<bar>x\<bar>" by (simp add: e_def)
  have "(of_int \<bar>m\<bar> :: rat) < of_int (2 ^ p)" using m(2) by (simp only: of_int_less_iff)
  then have "(of_int \<bar>m\<bar> :: rat) < pow2 (int p)" by (simp add: pow2_of_nat)
  then have "\<bar>x\<bar> < pow2 (int p) * pow2 k" by (simp add: ax)
  with e1 have "pow2 e < pow2 (int p + k)" by (simp add: pow2_add)
  then have ek: "e < int p + k" by (rule pow2_less_cancel)
  define j where "j = k - (max e emin - int p + 1)"
  have j: "0 \<le> j" using ek k by (simp add: j_def)
  define q where "q = pow2 (max e emin - int p + 1)"
  have "pow2 k = pow2 j * q" by (simp add: j_def q_def pow2_add[symmetric])
  then have xq: "x / q = of_int (m * 2 ^ nat j)"
    using pow2_pos[of "max e emin - int p + 1"] by (simp add: x q_def pow2_nonneg_int[OF j])
  have "round_to p emin x = q * of_int (round_half_even (x / q))"
    by (simp add: round_to_def Let_def e_def q_def)
  also have "\<dots> = q * (x / q)" by (simp only: xq round_half_even_of_int)
  also have "\<dots> = x" using pow2_pos[of "max e emin - int p + 1"] by (simp add: q_def)
  finally show ?thesis .
qed

lemma round_ieee_exact:
  assumes "m \<noteq> 0" "\<bar>m\<bar> < 2 ^ p" "emin - int p + 1 \<le> k" "x = of_int m * pow2 k"
    and "\<bar>x\<bar> < pow2 (emax + 1)"
  shows "round_ieee p emin emax x = Fin x"
proof -
  have "round_to p emin x = x" using assms(1-4) by (rule round_to_exact)
  moreover have "x \<noteq> 0" using assms(1,4) by simp
  ultimately show ?thesis using assms(5) by (simp add: round_ieee_def Let_def)
qed

text \<open>Conversely, a nonzero fixed point of rounding has this form.\<close>

lemma round_to_fixed:
  assumes "x \<noteq> 0" and "round_to p emin x = x"
  shows "\<exists>m k. m \<noteq> 0 \<and> \<bar>m\<bar> < 2 ^ p \<and> emin - int p + 1 \<le> k \<and> x = of_int m * pow2 k"
proof -
  define e where "e = ilog2 \<bar>x\<bar>"
  define k where "k = max e emin - int p + 1"
  define n where "n = round_half_even (x / pow2 k)"
  have xn: "x = of_int n * pow2 k"
    using assms(2) by (simp add: round_to_def Let_def e_def k_def n_def mult.commute)
  have xpos: "0 < \<bar>x\<bar>" using assms(1) by simp
  from ilog2_correct[OF xpos] have "\<bar>x\<bar> < pow2 (e + 1)" by (simp add: e_def)
  also have "pow2 (e + 1) \<le> pow2 (int p + k)" by (rule pow2_mono) (simp add: k_def)
  finally have "of_int \<bar>n\<bar> * pow2 k < pow2 (int p) * pow2 k"
    by (simp add: xn abs_mult pow2_add)
  then have "(of_int \<bar>n\<bar> :: rat) < pow2 (int p)" by simp
  then have "(of_int \<bar>n\<bar> :: rat) < of_int (2 ^ p)" by (simp add: pow2_of_nat)
  then have "\<bar>n\<bar> < 2 ^ p" by (simp only: of_int_less_iff)
  moreover have "n \<noteq> 0" using assms(1) xn by auto
  moreover have "emin - int p + 1 \<le> k" by (simp add: k_def)
  ultimately show ?thesis using xn by blast
qed

text \<open>Every finite binary32 value is a binary64 value.\<close>

lemma round32_imp_round64:
  assumes "round32 x = Fin x" and "x \<noteq> 0"
  shows "round64 x = Fin x"
proof -
  from assms(1) have r: "round_to 24 (- 126) x = x" and b: "\<bar>x\<bar> < pow2 128"
    by (auto simp: round32_def round_ieee_def Let_def signed_inf_def signed_zero_def
        split: if_splits)
  from round_to_fixed[OF assms(2) r] obtain m k
    where mk: "m \<noteq> 0" "\<bar>m\<bar> < 2 ^ 24" "- 126 - int 24 + 1 \<le> k" "x = of_int m * pow2 k"
    by blast
  have "\<bar>m\<bar> < 2 ^ 53" using mk(2) by simp
  moreover have "- 1022 - int 53 + 1 \<le> k" using mk(3) by simp
  moreover have "\<bar>x\<bar> < pow2 (1023 + 1)"
    using b pow2_mono[of 128 1024] by simp
  ultimately show ?thesis
    unfolding round64_def using mk(1,4) by (intro round_ieee_exact[where m = m and k = k]) auto
qed

lemma round64_of_int:
  assumes "m \<noteq> 0" and "\<bar>m\<bar> < 2 ^ 53"
  shows "round64 (of_int m) = Fin (of_int m)"
proof -
  have "\<bar>of_int m :: rat\<bar> < of_int (2 ^ 53)" using assms(2) by (simp only: of_int_abs[symmetric] of_int_less_iff)
  also have "\<dots> \<le> pow2 (1023 + 1)" using pow2_mono[of 53 1024] by (simp add: pow2_def)
  finally show ?thesis
    unfolding round64_def using assms
    by (intro round_ieee_exact[where m = m and k = 0]) (auto simp: pow2_def)
qed

lemma round64_half_of_int:
  assumes "m \<noteq> 0" and "\<bar>m\<bar> < 2 ^ 53"
  shows "round64 (of_int m / 2) = Fin (of_int m / 2)"
proof -
  have "\<bar>of_int m :: rat\<bar> < of_int (2 ^ 53)" using assms(2) by (simp only: of_int_abs[symmetric] of_int_less_iff)
  also have "\<dots> \<le> pow2 (1023 + 1)" using pow2_mono[of 53 1024] by (simp add: pow2_def)
  finally have "\<bar>of_int m / 2 :: rat\<bar> < pow2 (1023 + 1)" by simp
  then show ?thesis
    unfolding round64_def using assms
    by (intro round_ieee_exact[where m = m and k = "- 1"]) (auto simp: pow2_def)
qed

lemma round32_of_int:
  assumes "m \<noteq> 0" and "\<bar>m\<bar> < 2 ^ 24"
  shows "round32 (of_int m) = Fin (of_int m)"
proof -
  have "\<bar>of_int m :: rat\<bar> < of_int (2 ^ 24)" using assms(2) by (simp only: of_int_abs[symmetric] of_int_less_iff)
  also have "\<dots> \<le> pow2 (127 + 1)" using pow2_mono[of 24 128] by (simp add: pow2_def)
  finally show ?thesis
    unfolding round32_def using assms
    by (intro round_ieee_exact[where m = m and k = 0]) (auto simp: pow2_def)
qed

section \<open>Exact arithmetic on small integers and halves\<close>

lemma round64_numeral [simp]:
  "(numeral n :: int) < 2 ^ 53 \<Longrightarrow> round64 (numeral n) = Fin (numeral n)"
  using round64_of_int[of "numeral n"] by simp

lemma round64_neg_numeral [simp]:
  "(numeral n :: int) < 2 ^ 53 \<Longrightarrow> round64 (- numeral n) = Fin (- numeral n)"
  using round64_of_int[of "- numeral n"] by simp

lemma round64_one [simp]: "round64 1 = Fin 1"
  using round64_of_int[of 1] by simp

lemma round32_numeral [simp]:
  "(numeral n :: int) < 2 ^ 24 \<Longrightarrow> round32 (numeral n) = Fin (numeral n)"
  using round32_of_int[of "numeral n"] by simp

lemma round32_neg_numeral [simp]:
  "(numeral n :: int) < 2 ^ 24 \<Longrightarrow> round32 (- numeral n) = Fin (- numeral n)"
  using round32_of_int[of "- numeral n"] by simp

lemma round32_one [simp]: "round32 1 = Fin 1"
  using round32_of_int[of 1] by simp

lemma round32_neg_one [simp]: "round32 (- 1) = Fin (- 1)"
  using round32_of_int[of "- 1"] by simp

lemma round64_neg_one [simp]: "round64 (- 1) = Fin (- 1)"
  using round64_of_int[of "- 1"] by simp

text \<open>Half of a canvas dimension is exact.\<close>

lemma js_div_num_2:
  assumes "w < 2 ^ 53"
  shows "js_div (num w) (Fin 2) = Fin (of_nat w / 2)"
proof (cases "w = 0")
  case True
  then show ?thesis by (simp add: js_div_def num_def signed_zero_def)
next
  case False
  have "int w < 2 ^ 53" using assms by simp
  then have "\<bar>int w\<bar> < 2 ^ 53" by simp
  with False have r: "round64 (of_int (int w) / 2) = Fin (of_int (int w) / 2)"
    by (intro round64_half_of_int) auto
  have "js_div (num w) (Fin 2) = round64 (of_nat w / 2)"
    using False by (simp add: js_div_def num_def)
  also have "\<dots> = Fin (of_nat w / 2)" using r by simp
  finally show ?thesis .
qed

text \<open>The difference of two halves of integers is exact as long as it stays below \<open>2^52\<close>.\<close>

lemma js_sub_halves:
  assumes "\<bar>a - b\<bar> < 2 ^ 53"
  shows "js_sub (Fin (of_int a / 2)) (Fin (of_int b / 2)) = Fin ((of_int a - of_int b) / 2)"
proof (cases "a = b")
  case True
  then show ?thesis by (auto simp: js_sub_def js_add_def signed_zero_def)
next
  case False
  have r: "round64 (of_int (a - b) / 2) = Fin (of_int (a - b) / 2)"
    using False assms by (intro round64_half_of_int) auto
  have ne: "(of_int a :: rat) / 2 + - (of_int b / 2) \<noteq> 0" using False by simp
  have eq: "(of_int a :: rat) / 2 + - (of_int b / 2) = of_int (a - b) / 2"
    by (simp add: diff_divide_distrib)
  show ?thesis
  proof (cases "b = 0")
    case True
    with False r show ?thesis by (simp add: js_sub_def js_add_def)
  next
    case b: False
    then have "js_sub (Fin (of_int a / 2)) (Fin (of_int b / 2))
        = js_add (Fin (of_int a / 2)) (Fin (- (of_int b / 2)))"
      by (simp add: js_sub_def)
    also have "\<dots> = round64 (of_int a / 2 + - (of_int b / 2))"
      using b ne by (simp add: js_add_def Let_def)
    also have "\<dots> = Fin (of_int (a - b) / 2)" by (simp only: eq r)
    finally show ?thesis by simp
  qed
qed

section \<open>The pointer\<close>

text \<open>
  C8. A pointer event at client coordinates (400, 300) on a canvas of 800 by 600 sets the
  pointer state to (0, 0).
\<close>

theorem pointer_at_centre:
  "mouseX (updatePointerPosition (Fin 400) (Fin 300)
      (st\<lparr>canvas_width := 800, canvas_height := 600\<rparr>)) = Fin 0
   \<and> mouseY (updatePointerPosition (Fin 400) (Fin 300)
      (st\<lparr>canvas_width := 800, canvas_height := 600\<rparr>)) = Fin 0"
  by (simp add: updatePointerPosition_def Let_def num_def js_div_def js_sub_def js_add_def)

text \<open>
  C10. For every client position \<open>(x, y)\<close> and every canvas size,
  \<open>updatePointerPosition\<close> sets the pointer state to \<open>(x - w/2, h/2 - y)\<close> in the
  arithmetic of the script and leaves everything else alone. For whole-pixel positions and
  sizes below \<open>2^32\<close> no rounding occurs: the stored values are exactly the rationals
  \<open>x - w/2\<close> and \<open>h/2 - y\<close>, so the stored \<open>y\<close> falls as the client \<open>y\<close> grows.
\<close>

theorem updatePointerPosition_formula:
  "updatePointerPosition x y st =
     st\<lparr>mouseX := js_sub x (js_div (num (canvas_width st)) (Fin 2)),
        mouseY := js_sub (js_div (num (canvas_height st)) (Fin 2)) y\<rparr>
   \<and> (\<bar>cx\<bar> < 2 ^ 32 \<and> \<bar>cy\<bar> < 2 ^ 32 \<and> canvas_width st < 2 ^ 32 \<and> canvas_height st < 2 ^ 32 \<longrightarrow>
        mouseX (updatePointerPosition (Fin (of_int cx)) (Fin (of_int cy)) st)
          = Fin (of_int cx - of_nat (canvas_width st) / 2)
      \<and> mouseY (updatePointerPosition (Fin (of_int cx)) (Fin (of_int cy)) st)
          = Fin (of_nat (canvas_height st) / 2 - of_int cy))"
proof (intro conjI impI)
  show "updatePointerPosition x y st =
     st\<lparr>mouseX := js_sub x (js_div (num (canvas_width st)) (Fin 2)),
        mouseY := js_sub (js_div (num (canvas_height st)) (Fin 2)) y\<rparr>"
    by (simp add: updatePointerPosition_def Let_def)
next
  assume b: "\<bar>cx\<bar> < 2 ^ 32 \<and> \<bar>cy\<bar> < 2 ^ 32 \<and> canvas_width st < 2 ^ 32 \<and> canvas_height st < 2 ^ 32"
  define w where "w = canvas_width st"
  have w: "w < 2 ^ 53" using b by (simp add: w_def)
  have "\<bar>2 * cx - int w\<bar> < 2 ^ 53" using b by (simp add: w_def abs_less_iff)
  from js_sub_halves[OF this]
  have "js_sub (Fin (of_int cx)) (Fin (of_nat w / 2)) = Fin (of_int cx - of_nat w / 2)"
    by (simp add: diff_divide_distrib)
  then show "mouseX (updatePointerPosition (Fin (of_int cx)) (Fin (of_int cy)) st)
          = Fin (of_int cx - of_nat (canvas_width st) / 2)"
    using js_div_num_2[OF w] by (simp add: updatePointerPosition_def Let_def w_def)
next
  assume b: "\<bar>cx\<bar> < 2 ^ 32 \<and> \<bar>cy\<bar> < 2 ^ 32 \<and> canvas_width st < 2 ^ 32 \<and> canvas_height st < 2 ^ 32"
  define h where "h = canvas_height st"
  have h: "h < 2 ^ 53" using b by (simp add: h_def)
  have "\<bar>int h - 2 * cy\<bar> < 2 ^ 53" using b by (simp add: h_def abs_less_iff)
  from js_sub_halves[OF this]
  have "js_sub (Fin (of_nat h / 2)) (Fin (of_int cy)) = Fin (of_nat h / 2 - of_int cy)"
    by (simp add: diff_divide_distrib)
  then show "mouseY (updatePointerPosition (Fin (of_int cx)) (Fin (of_int cy)) st)
          = Fin (of_nat (canvas_height st) / 2 - of_int cy)"
    using js_div_num_2[OF h] by (simp add: updatePointerPosition_def Let_def h_def)
qed

theorem updatePointerPosition_formula_witness:
  "mouseX (updatePointerPosition (Fin 10) (Fin 20) (initial_state (Fin 0))) = Fin (- 140)
   \<and> mouseY (updatePointerPosition (Fin 10) (Fin 20) (initial_state (Fin 0))) = Fin 55"
  using updatePointerPosition_formula[of "Fin 10" "Fin 20" "initial_state (Fin 0)" 10 20,
      THEN conjunct2]
  by (simp add: initial_state_def)

section \<open>The store and the methods of Matrix3\<close>

lemma list9:
  assumes "length e = 9"
  obtains b0 b1 b2 b3 b4 b5 b6 b7 b8 where "e = [b0, b1, b2, b3, b4, b5, b6, b7, b8]"
  using assms by (auto simp: numeral_eq_Suc length_Suc_conv)

lemma set_Matrix3_eq:
  assumes "length (h ! elements this) = 9"
  shows "set_Matrix3 h this a b c d e f g i j
    = (h[elements this := [f32 a, f32 d, f32 g, f32 b, f32 e, f32 i, f32 c, f32 f, f32 j]], this)"
proof -
  from assms obtain b0 b1 b2 b3 b4 b5 b6 b7 b8
    where "h ! elements this = [b0, b1, b2, b3, b4, b5, b6, b7, b8]" by (rule list9)
  then show ?thesis by (simp add: set_Matrix3_def Let_def)
qed

lemma new_Matrix3_eq: "new_Matrix3 h = (h @ [identity9], \<lparr>elements = length h\<rparr>)"
  by (simp add: new_Matrix3_def makeIdentity_def set_Matrix3_eq Let_def identity9_def)

lemma makeOrthographic_eq:
  assumes "length (h ! elements this) = 9"
  shows "makeOrthographic h this l r t b
    = (h[elements this :=
          [f32 (js_div (Fin 2) (js_sub r l)), Fin 0, f32 (js_div (js_neg (js_add r l)) (js_sub r l)),
           Fin 0, f32 (js_div (Fin 2) (js_sub t b)), f32 (js_div (js_neg (js_add t b)) (js_sub t b)),
           Fin 0, Fin 0, Fin 1]], this)"
  by (simp add: makeOrthographic_def set_Matrix3_eq[OF assms])

lemma makeScale_eq:
  assumes "length (h ! elements this) = 9"
  shows "makeScale h this x y
    = (h[elements this := [f32 x, Fin 0, Fin 0, Fin 0, f32 y, Fin 0, Fin 0, Fin 0, Fin 1]], this)"
  by (simp add: makeScale_def set_Matrix3_eq[OF assms])

lemma makeTranslation_eq:
  assumes "length (h ! elements this) = 9"
  shows "makeTranslation h this x y
    = (h[elements this := [Fin 1, Fin 0, Fin 0, Fin 0, Fin 1, Fin 0, f32 x, f32 y, Fin 1]], this)"
  by (simp add: makeTranslation_def set_Matrix3_eq[OF assms])

lemma multiplyMatrix_eq:
  assumes "length (h ! elements this) = 9"
  shows "multiplyMatrix h this m
    = (h[elements this :=
         [f32 (dot3 (h ! elements this) (h ! elements m) 0 0),
          f32 (dot3 (h ! elements this) (h ! elements m) 1 0),
          f32 (dot3 (h ! elements this) (h ! elements m) 2 0),
          f32 (dot3 (h ! elements this) (h ! elements m) 0 3),
          f32 (dot3 (h ! elements this) (h ! elements m) 1 3),
          f32 (dot3 (h ! elements this) (h ! elements m) 2 3),
          f32 (dot3 (h ! elements this) (h ! elements m) 0 6),
          f32 (dot3 (h ! elements this) (h ! elements m) 1 6),
          f32 (dot3 (h ! elements this) (h ! elements m) 2 6)]], this)"
  by (simp add: multiplyMatrix_def Let_def set_Matrix3_eq[OF assms])

lemma js_sub_Fin:
  "js_sub (Fin x) (Fin y) = (if x = y then Fin 0 else round64 (x - y))"
  by (auto simp: js_sub_def js_add_def signed_zero_def)

lemma js_add_Fin:
  "js_add (Fin x) (Fin y) = (if x + y = 0 then Fin 0 else round64 (x + y))"
  by (auto simp: js_add_def signed_zero_def)

lemma js_mul_Fin:
  "js_mul (Fin x) (Fin y) =
     (if x = 0 \<or> y = 0 then signed_zero ((x < 0) \<noteq> (y < 0)) else round64 (x * y))"
  by (auto simp: js_mul_def)

lemma js_div_Fin:
  "y \<noteq> 0 \<Longrightarrow> js_div (Fin x) (Fin y) =
     (if x = 0 then signed_zero ((x < 0) \<noteq> (y < 0)) else round64 (x / y))"
  by (auto simp: js_div_def)

lemma js_add_Fin_NegZero: "js_add (Fin x) NegZero = (if x = 0 then Fin 0 else round64 x)"
  by (auto simp: js_add_def signed_zero_def)

lemma js_add_NegZero_Fin: "js_add NegZero (Fin x) = (if x = 0 then Fin 0 else round64 x)"
  by (auto simp: js_add_def signed_zero_def)

lemma js_add_NegZero_NegZero: "js_add NegZero NegZero = NegZero"
  by (auto simp: js_add_def signed_zero_def)

lemmas js_eval = js_sub_Fin js_add_Fin js_mul_Fin js_div_Fin js_add_Fin_NegZero
  js_add_NegZero_Fin js_add_NegZero_NegZero signed_zero_def

lemma ortho_0_2:
  "makeOrthographic [identity9] \<lparr>elements = 0\<rparr> (Fin 0) (Fin 2) (Fin 2) (Fin 0)
    = ([[Fin 1, Fin 0, Fin (- 1), Fin 0, Fin 1, Fin (- 1), Fin 0, Fin 0, Fin 1]],
       \<lparr>elements = 0\<rparr>)"
  by (simp add: makeOrthographic_eq identity9_def js_eval)

text \<open>
  C1. The matrix of \<open>makeOrthographic(l, r, t, b)\<close> is to map the point \<open>(l, b)\<close> to
  \<open>(-1, -1)\<close> and \<open>(r, t)\<close> to \<open>(1, 1)\<close>. The code does not: \<open>makeOrthographic\<close> hands the
  translation terms \<open>-(r+l)/(r-l)\<close> and \<open>-(t+b)/(t-b)\<close> to \<open>set\<close> as \<open>m31\<close> and \<open>m32\<close>, the
  third row, so they are stored in \<open>elements[2]\<close> and \<open>elements[5]\<close>, whereas
  \<open>multiplyVector\<close> (and the shader) read the translation from the third column,
  \<open>elements[6]\<close> and \<open>elements[7]\<close>, where \<open>makeTranslation\<close> puts it. With the bounds
  \<open>l = 0\<close>, \<open>r = 2\<close>, \<open>t = 2\<close>, \<open>b = 0\<close>, where no operation rounds, the point
  \<open>(l, b) = (0, 0)\<close> is mapped to \<open>(0, 0)\<close> and \<open>(r, t) = (2, 2)\<close> to \<open>(2, 2)\<close>, with
  weight \<open>-3\<close>.
\<close>

theorem makeOrthographic_misplaces_translation:
  "(case new_Matrix3 [] of (h, m) \<Rightarrow>
      case makeOrthographic h m (Fin 0) (Fin 2) (Fin 2) (Fin 0) of (h, m) \<Rightarrow>
        (h ! elements m,
         multiplyVector h m (Vector3 (Fin 0) (Fin 0) (Fin 1)),
         multiplyVector h m (Vector3 (Fin 2) (Fin 2) (Fin 1))))
   = ([Fin 1, Fin 0, Fin (- 1), Fin 0, Fin 1, Fin (- 1), Fin 0, Fin 0, Fin 1],
      Vector3 (Fin 0) (Fin 0) (Fin 1),
      Vector3 (Fin 2) (Fin 2) (Fin (- 3)))"
  by (simp add: new_Matrix3_eq ortho_0_2 multiplyVector_def aget_def js_eval)

section \<open>Composition with the identity\<close>

lemma is_f32_round64:
  assumes "is_f32 (Fin x)" and "x \<noteq> 0"
  shows "round64 x = Fin x"
  using assms by (intro round32_imp_round64) (simp_all add: is_f32_def)

lemma js_mul_one_left:
  assumes "is_finite b" and "is_f32 b"
  shows "js_mul (Fin 1) b = b"
proof (cases b)
  case (Fin x)
  with assms(2) show ?thesis
    by (cases "x = 0") (simp_all add: js_mul_def signed_zero_def is_f32_round64)
qed (use assms in \<open>simp_all add: js_mul_def signed_zero_def\<close>)

lemma js_mul_one_right:
  assumes "is_finite b" and "is_f32 b"
  shows "js_mul b (Fin 1) = b"
proof (cases b)
  case (Fin x)
  with assms(2) show ?thesis
    by (cases "x = 0") (simp_all add: js_mul_def signed_zero_def is_f32_round64)
qed (use assms in \<open>simp_all add: js_mul_def signed_zero_def\<close>)

lemma js_mul_zero_left: "is_finite c \<Longrightarrow> is_zero (js_mul (Fin 0) c)"
  by (cases c) (simp_all add: js_mul_def signed_zero_def)

lemma js_mul_zero_right: "is_finite c \<Longrightarrow> is_zero (js_mul c (Fin 0))"
  by (cases c) (simp_all add: js_mul_def signed_zero_def)

lemma js_eq_refl: "is_finite b \<Longrightarrow> js_eq b b"
  by (cases b) simp_all

lemma js_eq_finite_cases:
  assumes "js_eq v b" and "is_finite b"
  shows "v = b \<or> (is_zero v \<and> is_zero b)"
  using assms by (cases v; cases b) auto

lemma js_eq_zeros: "is_zero v \<Longrightarrow> is_zero b \<Longrightarrow> js_eq v b"
  by (cases v; cases b) auto

lemma js_add_zeros: "is_zero v \<Longrightarrow> is_zero z \<Longrightarrow> is_zero (js_add v z)"
  by (cases v; cases z) (auto simp: js_add_def signed_zero_def)

lemma js_add_zero_right:
  assumes "is_finite b" and "is_f32 b" and "\<not> is_zero b" and "is_zero z"
  shows "js_add b z = b"
proof -
  from assms(1,3) obtain x where b: "b = Fin x" "x \<noteq> 0" by (cases b) auto
  have "rat_of z = 0" using assms(4) by (cases z) auto
  moreover have "\<not> is_nan z" "\<not> is_inf z" using assms(4) by (cases z; simp)+
  ultimately show ?thesis
    using b assms(2) by (simp add: js_add_def is_f32_round64)
qed

lemma js_add_zero_left:
  assumes "is_finite b" and "is_f32 b" and "\<not> is_zero b" and "is_zero z"
  shows "js_add z b = b"
proof -
  from assms(1,3) obtain x where b: "b = Fin x" "x \<noteq> 0" by (cases b) auto
  have "rat_of z = 0" using assms(4) by (cases z) auto
  moreover have "\<not> is_nan z" "\<not> is_inf z" using assms(4) by (cases z; simp)+
  ultimately show ?thesis
    using b assms(2) by (simp add: js_add_def is_f32_round64)
qed

lemma js_eq_add_zero_right:
  assumes "js_eq v b" and "is_finite b" and "is_f32 b" and "is_zero z"
  shows "js_eq (js_add v z) b"
proof (cases "is_zero b")
  case True
  with js_eq_finite_cases[OF assms(1,2)] have "is_zero v" by auto
  then show ?thesis using True assms(4) by (intro js_eq_zeros js_add_zeros)
next
  case False
  with js_eq_finite_cases[OF assms(1,2)] have "v = b" by auto
  then show ?thesis
    using js_add_zero_right[OF assms(2,3) False assms(4)] assms(2) by (simp add: js_eq_refl)
qed

lemma js_eq_add_zero_left:
  assumes "js_eq v b" and "is_finite b" and "is_f32 b" and "is_zero z"
  shows "js_eq (js_add z v) b"
proof (cases "is_zero b")
  case True
  with js_eq_finite_cases[OF assms(1,2)] have "is_zero v" by auto
  then show ?thesis using True assms(4) by (intro js_eq_zeros js_add_zeros)
next
  case False
  with js_eq_finite_cases[OF assms(1,2)] have "v = b" by auto
  then show ?thesis
    using js_add_zero_left[OF assms(2,3) False assms(4)] assms(2) by (simp add: js_eq_refl)
qed

lemma js_eq_f32:
  assumes "js_eq v b" and "is_finite b" and "is_f32 b"
  shows "js_eq (f32 v) b"
proof (cases "is_zero b")
  case True
  with js_eq_finite_cases[OF assms(1,2)] have "is_zero v" by auto
  then have "f32 v = v" by (cases v) auto
  then show ?thesis using assms(1) by simp
next
  case False
  with js_eq_finite_cases[OF assms(1,2)] have "v = b" by auto
  then show ?thesis using assms(2,3) by (simp add: is_f32_def js_eq_refl)
qed

text \<open>The three shapes a dot product with a row or column of the identity takes.\<close>

lemma dot_unit_1:
  assumes "is_finite b" "is_f32 b" "is_zero z1" "is_zero z2" "js_eq v b"
  shows "js_eq (f32 (js_add (js_add v z1) z2)) b"
  using assms by (intro js_eq_f32 js_eq_add_zero_right)

lemma dot_unit_2:
  assumes "is_finite b" "is_f32 b" "is_zero z1" "is_zero z2" "js_eq v b"
  shows "js_eq (f32 (js_add (js_add z1 v) z2)) b"
  using assms by (intro js_eq_f32 js_eq_add_zero_right js_eq_add_zero_left)

lemma dot_unit_3:
  assumes "is_finite b" "is_f32 b" "is_zero z1" "is_zero z2" "js_eq v b"
  shows "js_eq (f32 (js_add (js_add z1 z2) v)) b"
  using assms by (intro js_eq_f32 js_eq_add_zero_left js_add_zeros)

lemmas dot_identity =
  dot_unit_1[OF _ _ js_mul_zero_left js_mul_zero_left]
  dot_unit_2[OF _ _ js_mul_zero_left js_mul_zero_left]
  dot_unit_3[OF _ _ js_mul_zero_left js_mul_zero_left]
  dot_unit_1[OF _ _ js_mul_zero_right js_mul_zero_right]
  dot_unit_2[OF _ _ js_mul_zero_right js_mul_zero_right]
  dot_unit_3[OF _ _ js_mul_zero_right js_mul_zero_right]

lemma multiplyMatrix_identity_left:
  assumes "elements M < length h" and "length (h ! elements M) = 9"
    and "\<forall>v \<in> set (h ! elements M). is_finite v \<and> is_f32 v"
  shows "case new_Matrix3 h of (h1, I) \<Rightarrow>
           (case multiplyMatrix h1 I M of (h2, R) \<Rightarrow>
              R = I \<and> list_all2 js_eq (h2 ! elements I) (h ! elements M)
              \<and> h2 ! elements M = h ! elements M)"
proof -
  from assms(2) obtain b0 b1 b2 b3 b4 b5 b6 b7 b8
    where e: "h ! elements M = [b0, b1, b2, b3, b4, b5, b6, b7, b8]" by (rule list9)
  with assms(3) have f:
    "is_finite b0" "is_finite b1" "is_finite b2" "is_finite b3" "is_finite b4"
    "is_finite b5" "is_finite b6" "is_finite b7" "is_finite b8"
    "is_f32 b0" "is_f32 b1" "is_f32 b2" "is_f32 b3" "is_f32 b4"
    "is_f32 b5" "is_f32 b6" "is_f32 b7" "is_f32 b8"
    by simp_all
  note one = js_mul_one_left js_eq_refl
  have a: "(h @ [identity9]) ! elements M = [b0, b1, b2, b3, b4, b5, b6, b7, b8]"
    using assms(1) e by (simp add: nth_append)
  have ne: "elements M \<noteq> length h" using assms(1) by simp
  have "fst (multiplyMatrix (h @ [identity9]) \<lparr>elements = length h\<rparr> M) ! length h =
      [f32 (dot3 identity9 (h ! elements M) 0 0), f32 (dot3 identity9 (h ! elements M) 1 0),
       f32 (dot3 identity9 (h ! elements M) 2 0), f32 (dot3 identity9 (h ! elements M) 0 3),
       f32 (dot3 identity9 (h ! elements M) 1 3), f32 (dot3 identity9 (h ! elements M) 2 3),
       f32 (dot3 identity9 (h ! elements M) 0 6), f32 (dot3 identity9 (h ! elements M) 1 6),
       f32 (dot3 identity9 (h ! elements M) 2 6)]"
    using a e by (simp add: multiplyMatrix_eq identity9_def)
  moreover have "js_eq (f32 (dot3 identity9 (h ! elements M) 0 0)) b0"
    unfolding e dot3_def identity9_def aget_def using f by (simp add: dot_identity one)
  moreover have "js_eq (f32 (dot3 identity9 (h ! elements M) 1 0)) b1"
    unfolding e dot3_def identity9_def aget_def using f by (simp add: dot_identity one)
  moreover have "js_eq (f32 (dot3 identity9 (h ! elements M) 2 0)) b2"
    unfolding e dot3_def identity9_def aget_def using f by (simp add: dot_identity one)
  moreover have "js_eq (f32 (dot3 identity9 (h ! elements M) 0 3)) b3"
    unfolding e dot3_def identity9_def aget_def using f by (simp add: dot_identity one)
  moreover have "js_eq (f32 (dot3 identity9 (h ! elements M) 1 3)) b4"
    unfolding e dot3_def identity9_def aget_def using f by (simp add: dot_identity one)
  moreover have "js_eq (f32 (dot3 identity9 (h ! elements M) 2 3)) b5"
    unfolding e dot3_def identity9_def aget_def using f by (simp add: dot_identity one)
  moreover have "js_eq (f32 (dot3 identity9 (h ! elements M) 0 6)) b6"
    unfolding e dot3_def identity9_def aget_def using f by (simp add: dot_identity one)
  moreover have "js_eq (f32 (dot3 identity9 (h ! elements M) 1 6)) b7"
    unfolding e dot3_def identity9_def aget_def using f by (simp add: dot_identity one)
  moreover have "js_eq (f32 (dot3 identity9 (h ! elements M) 2 6)) b8"
    unfolding e dot3_def identity9_def aget_def using f by (simp add: dot_identity one)
  moreover have "fst (multiplyMatrix (h @ [identity9]) \<lparr>elements = length h\<rparr> M) ! elements M
      = h ! elements M"
    using ne a e assms(1) by (simp add: multiplyMatrix_eq identity9_def nth_append)
  moreover have "snd (multiplyMatrix (h @ [identity9]) \<lparr>elements = length h\<rparr> M)
      = \<lparr>elements = length h\<rparr>"
    by (simp add: multiplyMatrix_eq identity9_def)
  ultimately show ?thesis
    by (simp add: new_Matrix3_eq split_beta e)
qed


lemma multiplyMatrix_identity_right:
  assumes "elements M < length h" and "length (h ! elements M) = 9"
    and "\<forall>v \<in> set (h ! elements M). is_finite v \<and> is_f32 v"
  shows "case new_Matrix3 h of (h1, I) \<Rightarrow>
           (case multiplyMatrix h1 M I of (h2, R) \<Rightarrow>
              R = M \<and> list_all2 js_eq (h2 ! elements M) (h ! elements M))"
proof -
  from assms(2) obtain b0 b1 b2 b3 b4 b5 b6 b7 b8
    where e: "h ! elements M = [b0, b1, b2, b3, b4, b5, b6, b7, b8]" by (rule list9)
  with assms(3) have f:
    "is_finite b0" "is_finite b1" "is_finite b2" "is_finite b3" "is_finite b4"
    "is_finite b5" "is_finite b6" "is_finite b7" "is_finite b8"
    "is_f32 b0" "is_f32 b1" "is_f32 b2" "is_f32 b3" "is_f32 b4"
    "is_f32 b5" "is_f32 b6" "is_f32 b7" "is_f32 b8"
    by simp_all
  note one = js_mul_one_right js_eq_refl
  have a: "(h @ [identity9]) ! elements M = [b0, b1, b2, b3, b4, b5, b6, b7, b8]"
    using assms(1) e by (simp add: nth_append)
  have "fst (multiplyMatrix (h @ [identity9]) M \<lparr>elements = length h\<rparr>) ! elements M =
      [f32 (dot3 (h ! elements M) identity9 0 0), f32 (dot3 (h ! elements M) identity9 1 0),
       f32 (dot3 (h ! elements M) identity9 2 0), f32 (dot3 (h ! elements M) identity9 0 3),
       f32 (dot3 (h ! elements M) identity9 1 3), f32 (dot3 (h ! elements M) identity9 2 3),
       f32 (dot3 (h ! elements M) identity9 0 6), f32 (dot3 (h ! elements M) identity9 1 6),
       f32 (dot3 (h ! elements M) identity9 2 6)]"
    using a e assms(1) by (simp add: multiplyMatrix_eq)
  moreover have "js_eq (f32 (dot3 (h ! elements M) identity9 0 0)) b0"
    unfolding e dot3_def identity9_def aget_def using f by (simp add: dot_identity one)
  moreover have "js_eq (f32 (dot3 (h ! elements M) identity9 1 0)) b1"
    unfolding e dot3_def identity9_def aget_def using f by (simp add: dot_identity one)
  moreover have "js_eq (f32 (dot3 (h ! elements M) identity9 2 0)) b2"
    unfolding e dot3_def identity9_def aget_def using f by (simp add: dot_identity one)
  moreover have "js_eq (f32 (dot3 (h ! elements M) identity9 0 3)) b3"
    unfolding e dot3_def identity9_def aget_def using f by (simp add: dot_identity one)
  moreover have "js_eq (f32 (dot3 (h ! elements M) identity9 1 3)) b4"
    unfolding e dot3_def identity9_def aget_def using f by (simp add: dot_identity one)
  moreover have "js_eq (f32 (dot3 (h ! elements M) identity9 2 3)) b5"
    unfolding e dot3_def identity9_def aget_def using f by (simp add: dot_identity one)
  moreover have "js_eq (f32 (dot3 (h ! elements M) identity9 0 6)) b6"
    unfolding e dot3_def identity9_def aget_def using f by (simp add: dot_identity one)
  moreover have "js_eq (f32 (dot3 (h ! elements M) identity9 1 6)) b7"
    unfolding e dot3_def identity9_def aget_def using f by (simp add: dot_identity one)
  moreover have "js_eq (f32 (dot3 (h ! elements M) identity9 2 6)) b8"
    unfolding e dot3_def identity9_def aget_def using f by (simp add: dot_identity one)
  moreover have "snd (multiplyMatrix (h @ [identity9]) M \<lparr>elements = length h\<rparr>) = M"
    using a by (simp add: multiplyMatrix_eq)
  ultimately show ?thesis
    by (simp add: new_Matrix3_eq split_beta e)
qed


lemma f32_overflow: "f32 (Fin (2 ^ 128)) = PosInf"
proof -
  have "round_to 24 (- 126) (2 ^ 128) = 2 ^ 128"
    by (rule round_to_exact[where m = 1 and k = 128]) (simp_all add: pow2_def)
  then show ?thesis
    by (simp add: round32_def round_ieee_def Let_def pow2_def signed_inf_def)
qed

text \<open>
  C5. Composing the identity with a matrix \<open>M\<close> whose nine elements are finite yields the
  elements of \<open>M\<close>, on either side: \<open>new Matrix3().multiplyMatrix(M)\<close> holds numbers equal
  (\<open>===\<close>) to those of \<open>M\<close> and leaves \<open>M\<close> alone, and \<open>M.multiplyMatrix(new Matrix3())\<close>
  leaves in \<open>M\<close> numbers equal to those it held. (A zero may come back with the other sign.)
\<close>

theorem identity_composition:
  assumes "elements M < length h" and "length (h ! elements M) = 9"
    and "\<forall>v \<in> set (h ! elements M). is_finite v \<and> is_f32 v"
  shows "case new_Matrix3 h of (h1, I) \<Rightarrow>
           (case multiplyMatrix h1 I M of (h2, R) \<Rightarrow>
              R = I \<and> list_all2 js_eq (h2 ! elements I) (h ! elements M)
              \<and> h2 ! elements M = h ! elements M)
         \<and> (case multiplyMatrix h1 M I of (h2, R) \<Rightarrow>
              R = M \<and> list_all2 js_eq (h2 ! elements M) (h ! elements M))"
  using multiplyMatrix_identity_left[OF assms] multiplyMatrix_identity_right[OF assms]
  by (simp add: split_beta)

theorem identity_composition_witness:
  "case new_Matrix3 [[Fin 1, Fin 0, Fin 0, Fin 0, Fin 1, Fin 0, Fin 3, Fin 4, Fin 1]] of
     (h1, I) \<Rightarrow>
       (case multiplyMatrix h1 I \<lparr>elements = 0\<rparr> of (h2, R) \<Rightarrow>
          R = I \<and> list_all2 js_eq (h2 ! elements I)
                     [Fin 1, Fin 0, Fin 0, Fin 0, Fin 1, Fin 0, Fin 3, Fin 4, Fin 1]
          \<and> h2 ! 0 = [Fin 1, Fin 0, Fin 0, Fin 0, Fin 1, Fin 0, Fin 3, Fin 4, Fin 1])
     \<and> (case multiplyMatrix h1 \<lparr>elements = 0\<rparr> I of (h2, R) \<Rightarrow>
          R = \<lparr>elements = 0\<rparr> \<and> list_all2 js_eq (h2 ! 0)
                     [Fin 1, Fin 0, Fin 0, Fin 0, Fin 1, Fin 0, Fin 3, Fin 4, Fin 1])"
proof -
  let ?h = "[[Fin 1, Fin 0, Fin 0, Fin 0, Fin 1, Fin 0, Fin 3, Fin 4, Fin 1]]"
  have 1: "elements \<lparr>elements = 0\<rparr> < length ?h" by simp
  have 2: "length (?h ! elements \<lparr>elements = 0\<rparr>) = 9" by simp
  have 3: "\<forall>v \<in> set (?h ! elements \<lparr>elements = 0\<rparr>). is_finite v \<and> is_f32 v"
    by (simp add: is_f32_def)
  show ?thesis using identity_composition[OF 1 2 3] by simp
qed

text \<open>
  A matrix with an infinite element: \<open>makeScale(2^128, 1)\<close> stores \<open>Infinity\<close>, the finite
  argument being beyond the binary32 range. The identity composed with it holds NaN where
  the matrix holds zeros.
\<close>

theorem identity_composition_counterexample:
  "(case new_Matrix3 [] of (h, M) \<Rightarrow>
      case makeScale h M (Fin (2 ^ 128)) (Fin 1) of (h, M) \<Rightarrow>
        case new_Matrix3 h of (h, I) \<Rightarrow>
          case multiplyMatrix h I M of (h, R) \<Rightarrow> (h ! elements M, h ! elements I))
   = ([PosInf, Fin 0, Fin 0, Fin 0, Fin 1, Fin 0, Fin 0, Fin 0, Fin 1],
      [PosInf, NaN, NaN, Fin 0, Fin 1, Fin 0, Fin 0, Fin 0, Fin 1])"
proof -
  let ?m = "[PosInf, Fin 0, Fin 0, Fin 0, Fin 1, Fin 0, Fin 0, Fin 0, Fin 1]"
  have s: "makeScale [identity9] \<lparr>elements = 0\<rparr> (Fin (2 ^ 128)) (Fin 1)
      = ([?m], \<lparr>elements = 0\<rparr>)"
    using f32_overflow by (simp add: makeScale_eq identity9_def)
  have d: "dot3 identity9 ?m 0 0 = PosInf" "dot3 identity9 ?m 1 0 = NaN"
    "dot3 identity9 ?m 2 0 = NaN" "dot3 identity9 ?m 0 3 = Fin 0"
    "dot3 identity9 ?m 1 3 = Fin 1" "dot3 identity9 ?m 2 3 = Fin 0"
    "dot3 identity9 ?m 0 6 = Fin 0" "dot3 identity9 ?m 1 6 = Fin 0"
    "dot3 identity9 ?m 2 6 = Fin 1"
    by (simp_all add: dot3_def identity9_def aget_def js_mul_def js_add_def signed_zero_def
        signed_inf_def)
  have m: "multiplyMatrix [?m, identity9] \<lparr>elements = 1\<rparr> \<lparr>elements = 0\<rparr>
      = ([?m, [PosInf, NaN, NaN, Fin 0, Fin 1, Fin 0, Fin 0, Fin 0, Fin 1]],
         \<lparr>elements = 1\<rparr>)"
    using d by (simp add: multiplyMatrix_eq identity9_def)
  have n0: "new_Matrix3 [] = ([identity9], \<lparr>elements = 0\<rparr>)"
    by (simp add: new_Matrix3_eq)
  have n1: "new_Matrix3 [?m] = ([?m, identity9], \<lparr>elements = 1\<rparr>)"
    by (simp add: new_Matrix3_eq)
  show ?thesis by (simp only: n0 s n1 m prod.case) simp
qed

section \<open>Clones share no storage\<close>

lemma set_Matrix3_other [simp]:
  "k \<noteq> elements this \<Longrightarrow> fst (set_Matrix3 h this a b c d e f g i j) ! k = h ! k"
  by (simp add: set_Matrix3_def Let_def)

lemma mutate_other: "k \<noteq> elements this \<Longrightarrow> mutate Mth h this c ! k = h ! k"
  by (cases c)
    (simp_all add: copy_def makeIdentity_def makeScale_def makeRotation_def
      makeTranslation_def makeOrthographic_def multiplyScalar_def multiplyMatrix_def
      Let_def split_beta)

lemma mutate_all_other: "k \<noteq> elements this \<Longrightarrow> mutate_all Mth h this cs ! k = h ! k"
  by (induction cs arbitrary: h) (simp_all add: mutate_other)

lemma copy_loop_9:
  assumes "length src = 9" and "length dst = 9"
  shows "copy_loop 9 src dst = map f32 src"
proof -
  from assms(1) obtain a0 a1 a2 a3 a4 a5 a6 a7 a8
    where s: "src = [a0, a1, a2, a3, a4, a5, a6, a7, a8]" by (rule list9)
  from assms(2) obtain b0 b1 b2 b3 b4 b5 b6 b7 b8
    where d: "dst = [b0, b1, b2, b3, b4, b5, b6, b7, b8]" by (rule list9)
  show ?thesis by (simp add: s d eval_nat_numeral aget_def)
qed

lemma clone_eq:
  assumes "elements A < length h"
  shows "clone h A = (h @ [copy_loop 9 (h ! elements A) identity9], \<lparr>elements = length h\<rparr>)"
  using assms by (simp add: clone_def new_Matrix3_eq nth_append)

lemma map_f32_id: "\<forall>v \<in> set e. is_f32 v \<Longrightarrow> map f32 e = e"
  by (induction e) (simp_all add: is_f32_def)

lemma clone_elements:
  assumes "elements A < length h" and "length (h ! elements A) = 9"
    and "\<forall>v \<in> set (h ! elements A). is_f32 v"
  shows "clone h A = (h @ [h ! elements A], \<lparr>elements = length h\<rparr>)"
  using assms by (simp add: clone_eq copy_loop_9 identity9_def map_f32_id)

lemma updateAndRender_keeps_projection:
  assumes "gl st = Some g" and "pMatrix st = Some A" and "elements A < length (store st)"
  shows "\<exists>st'. updateAndRender now st = Inr st' \<and> pMatrix st' = Some A
    \<and> store st' ! elements A = store st ! elements A"
proof -
  define h where "h = store st"
  define T where "T = [Fin 1, Fin 0, Fin 0, Fin 0, Fin 1, Fin 0, Fin 0, Fin 0, Fin 1]"
  have t: "makeTranslation (h @ [identity9]) \<lparr>elements = length h\<rparr> (Fin 0) (Fin 0)
      = (h @ [T], \<lparr>elements = length h\<rparr>)"
    by (simp add: makeTranslation_eq identity9_def T_def)
  have A: "elements A < length (h @ [T])" using assms(3) by (simp add: h_def)
  obtain C where c: "clone (h @ [T]) A = (h @ [T] @ [C], \<lparr>elements = Suc (length h)\<rparr>)"
    using clone_eq[OF A] by simp
  have ne: "elements A \<noteq> Suc (length h)" using assms(3) by (simp add: h_def)
  have A2: "elements A < length (h @ [T] @ [C])" using assms(3) by (simp add: h_def)
  have "fst (multiplyMatrix (h @ [T] @ [C]) \<lparr>elements = Suc (length h)\<rparr>
      \<lparr>elements = length h\<rparr>) ! elements A = (h @ [T] @ [C]) ! elements A"
    using ne by (simp add: multiplyMatrix_def Let_def split_beta)
  also have "\<dots> = h ! elements A" using assms(3) by (simp add: nth_append h_def)
  finally show ?thesis
    using assms(1,2)
    by (simp add: updateAndRender_def new_Matrix3_eq t c Let_def split_beta flip: h_def)
qed

text \<open>
  C6. The clone \<open>B\<close> of an allocated matrix \<open>A\<close> is a new object whose array holds the
  elements of \<open>A\<close> and is not the array of \<open>A\<close>: whatever sequence of \<open>copy\<close>, \<open>set\<close>,
  construction methods, \<open>multiplyScalar\<close> and \<open>multiplyMatrix\<close> is then applied to \<open>B\<close>,
  with any arguments, the nine elements of \<open>A\<close> stay as they were. In particular a frame,
  which multiplies \<open>pMatrix.clone()\<close> by the model matrix, leaves the stored projection
  matrix unchanged.
\<close>

theorem clone_shares_no_storage:
  assumes "elements A < length h" and "length (h ! elements A) = 9"
    and "\<forall>v \<in> set (h ! elements A). is_f32 v"
    and "gl st = Some g" and "pMatrix st = Some A" and "store st = h"
  shows "(case clone h A of (h1, B) \<Rightarrow>
            elements B \<noteq> elements A
          \<and> h1 ! elements B = h ! elements A
          \<and> h1 ! elements A = h ! elements A
          \<and> (\<forall>cs. mutate_all Mth h1 B cs ! elements A = h ! elements A))
       \<and> (\<exists>st'. updateAndRender now st = Inr st' \<and> pMatrix st' = Some A
            \<and> store st' ! elements A = h ! elements A)"
proof -
  have ne: "elements A \<noteq> elements \<lparr>elements = length h\<rparr>" using assms(1) by simp
  have "mutate_all Mth (h @ [h ! elements A]) \<lparr>elements = length h\<rparr> cs ! elements A
      = h ! elements A" for cs
    using mutate_all_other[OF ne] assms(1) by (simp add: nth_append)
  then have "case clone h A of (h1, B) \<Rightarrow>
            elements B \<noteq> elements A
          \<and> h1 ! elements B = h ! elements A
          \<and> h1 ! elements A = h ! elements A
          \<and> (\<forall>cs. mutate_all Mth h1 B cs ! elements A = h ! elements A)"
    using assms(1) by (simp add: clone_elements[OF assms(1-3)] nth_append)
  moreover have "\<exists>st'. updateAndRender now st = Inr st' \<and> pMatrix st' = Some A
            \<and> store st' ! elements A = h ! elements A"
    using updateAndRender_keeps_projection[OF assms(4,5)] assms(1,6) by simp
  ultimately show ?thesis by simp
qed

theorem clone_shares_no_storage_witness:
  "(case clone [[Fin 2, Fin 0, Fin 0, Fin 0, Fin 3, Fin 0, Fin 0, Fin 0, Fin 1]]
          \<lparr>elements = 0\<rparr> of
      (h1, B) \<Rightarrow>
            elements B \<noteq> 0
          \<and> h1 ! elements B = [Fin 2, Fin 0, Fin 0, Fin 0, Fin 3, Fin 0, Fin 0, Fin 0, Fin 1]
          \<and> h1 ! 0 = [Fin 2, Fin 0, Fin 0, Fin 0, Fin 3, Fin 0, Fin 0, Fin 0, Fin 1]
          \<and> (\<forall>cs. mutate_all \<lparr>Math_cos = (\<lambda>a. Fin 1), Math_sin = (\<lambda>a. Fin 0)\<rparr> h1 B cs ! 0
                = [Fin 2, Fin 0, Fin 0, Fin 0, Fin 3, Fin 0, Fin 0, Fin 0, Fin 1]))
   \<and> (\<exists>st'. updateAndRender (Fin 16)
          (initial_state (Fin 0)
            \<lparr>pMatrix := Some \<lparr>elements = 0\<rparr>,
             store := [[Fin 2, Fin 0, Fin 0, Fin 0, Fin 3, Fin 0, Fin 0, Fin 0, Fin 1]],
             gl := Some fresh_context\<rparr>) = Inr st'
        \<and> pMatrix st' = Some \<lparr>elements = 0\<rparr>
        \<and> store st' ! 0 = [Fin 2, Fin 0, Fin 0, Fin 0, Fin 3, Fin 0, Fin 0, Fin 0, Fin 1])"
proof -
  let ?h = "[[Fin 2, Fin 0, Fin 0, Fin 0, Fin 3, Fin 0, Fin 0, Fin 0, Fin 1]]"
  let ?A = "\<lparr>elements = 0\<rparr>"
  let ?st = "initial_state (Fin 0)\<lparr>pMatrix := Some ?A, store := ?h, gl := Some fresh_context\<rparr>"
  have 1: "elements ?A < length ?h" by simp
  have 2: "length (?h ! elements ?A) = 9" by simp
  have 3: "\<forall>v \<in> set (?h ! elements ?A). is_f32 v" by (simp add: is_f32_def)
  have 4: "gl ?st = Some fresh_context" by simp
  have 5: "pMatrix ?st = Some ?A" by simp
  have 6: "store ?st = ?h" by simp
  show ?thesis
    using clone_shares_no_storage[OF 1 2 3 4 5 6,
        of "\<lparr>Math_cos = (\<lambda>a. Fin 1), Math_sin = (\<lambda>a. Fin 0)\<rparr>" "Fin 16"]
    by simp
qed

section \<open>The grid loops end\<close>

lemma round_to_range:
  assumes "0 < x" and "emin \<le> ilog2 x" and "0 < p"
  shows "pow2 (ilog2 x) \<le> round_to p emin x \<and> round_to p emin x \<le> pow2 (ilog2 x + 1)"
proof -
  define e where "e = ilog2 x"
  define q where "q = pow2 (e - int p + 1)"
  from ilog2_correct[OF assms(1)] have e: "pow2 e \<le> x" "x < pow2 (e + 1)" by (auto simp: e_def)
  have q: "0 < q" by (simp add: q_def)
  have pe: "pow2 e = q * of_int (2 ^ (p - 1))"
  proof -
    have "pow2 e = q * pow2 (int p - 1)" by (simp add: q_def pow2_add[symmetric])
    also have "pow2 (int p - 1) = of_int (2 ^ (p - 1))"
      using assms(3) pow2_of_nat[of "p - 1"] by (simp add: of_nat_diff)
    finally show ?thesis .
  qed
  have pe1: "pow2 (e + 1) = q * of_int (2 ^ p)"
  proof -
    have "pow2 (e + 1) = q * pow2 (int p)" by (simp add: q_def pow2_add[symmetric])
    then show ?thesis by (simp add: pow2_of_nat)
  qed
  have "of_int (2 ^ (p - 1)) \<le> x / q" using e(1) q by (simp add: pe pos_le_divide_eq mult.commute)
  then have lo: "2 ^ (p - 1) \<le> round_half_even (x / q)" by (rule round_half_even_ge)
  have "x / q \<le> of_int (2 ^ p)" using e(2) q by (simp add: pe1 pos_divide_le_eq mult.commute)
  then have hi: "round_half_even (x / q) \<le> 2 ^ p" by (rule round_half_even_le)
  have r: "round_to p emin x = q * of_int (round_half_even (x / q))"
    using assms(1,2) by (simp add: round_to_def Let_def e_def q_def max_def)
  have "q * of_int (2 ^ (p - 1)) \<le> q * of_int (round_half_even (x / q))"
    using lo q by (simp only: mult_le_cancel_left_pos of_int_le_iff)
  moreover have "q * of_int (round_half_even (x / q)) \<le> q * of_int (2 ^ p)"
    using hi q by (simp only: mult_le_cancel_left_pos of_int_le_iff)
  ultimately show ?thesis by (simp only: r pe pe1 flip: e_def)
qed

lemma round64_range:
  assumes "pow2 a \<le> x" and "x < pow2 b" and "- 1022 \<le> a" and "b \<le> 1023"
  shows "\<exists>r. round64 x = Fin r \<and> pow2 a \<le> r \<and> r \<le> pow2 b"
proof -
  have x: "0 < x" using assms(1) pow2_pos[of a] by (rule less_le_trans[rotated])
  from ilog2_correct[OF x] have e: "pow2 (ilog2 x) \<le> x" "x < pow2 (ilog2 x + 1)" by auto
  have "pow2 a < pow2 (ilog2 x + 1)" using assms(1) e(2) by simp
  then have ae: "a \<le> ilog2 x" using pow2_less_cancel by fastforce
  have "pow2 (ilog2 x) < pow2 b" using assms(2) e(1) by simp
  then have eb: "ilog2 x + 1 \<le> b" using pow2_less_cancel by fastforce
  have "- 1022 \<le> ilog2 x" using ae assms(3) by simp
  from round_to_range[OF x this, of 53]
  have r: "pow2 (ilog2 x) \<le> round_to 53 (- 1022) x" "round_to 53 (- 1022) x \<le> pow2 (ilog2 x + 1)"
    by auto
  have lo: "pow2 a \<le> round_to 53 (- 1022) x" using r(1) pow2_mono[OF ae] by simp
  have hi: "round_to 53 (- 1022) x \<le> pow2 b" using r(2) pow2_mono[OF eb] by simp
  have pos: "0 < round_to 53 (- 1022) x" using lo pow2_pos[of a] by (rule less_le_trans[rotated])
  have "pow2 b < pow2 (1023 + 1)" using assms(4) pow2_mono[of b 1023]
    by (simp add: pow2_def)
  with hi have "\<bar>round_to 53 (- 1022) x\<bar> < pow2 (1023 + 1)" using pos by simp
  with pos have "round64 x = Fin (round_to 53 (- 1022) x)"
    by (simp add: round64_def round_ieee_def Let_def)
  with lo hi show ?thesis by simp
qed

text \<open>A loop bound other than \<open>Infinity\<close> admits finitely many counter values.\<close>

lemma js_lt_bound:
  assumes "b \<noteq> PosInf"
  shows "\<exists>n. \<forall>x. js_lt (num x) b = (x < n)"
proof (cases b)
  case (Fin q)
  have "js_lt (num x) b = (x < nat \<lceil>q\<rceil>)" for x
  proof -
    have "(of_nat x < q) = (int x < \<lceil>q\<rceil>)" by (simp add: less_ceiling_iff)
    then show ?thesis by (simp add: Fin num_def) linarith
  qed
  then show ?thesis by blast
next
  case NegZero
  then have "js_lt (num x) b = (x < 0)" for x by (simp add: num_def)
  then show ?thesis by blast
next
  case NegInf
  then have "js_lt (num x) b = (x < 0)" for x by (simp add: num_def)
  then show ?thesis by blast
next
  case NaN
  then have "js_lt (num x) b = (x < 0)" for x by (simp add: num_def)
  then show ?thesis by blast
qed (use assms in simp)

text \<open>The coordinates pushed for the grid cell \<open>(x, y)\<close>.\<close>

lemma cols_loop_eq:
  assumes "\<And>x. js_lt (num x) cols = (x < n)"
  shows "cols_loop step cols st y x acc = Some (acc @ concat (map (\<lambda>i.
      [js_add (js_sub (js_mul (num i) step) (js_div (num (canvas_width st)) (Fin 2)))
              (js_div step (Fin 2)),
       js_add (js_sub (js_mul (num y) step) (js_div (num (canvas_height st)) (Fin 2)))
              (js_div step (Fin 2))]) [x..<n]))"
proof (induction "n - x" arbitrary: x acc)
  case 0
  then show ?case by (subst cols_loop.simps) (simp add: assms)
next
  case (Suc k)
  then have x: "x < n" and k: "k = n - Suc x" by simp_all
  show ?case
    by (subst cols_loop.simps) (simp add: assms x Suc.hyps(1)[OF k] upt_conv_Cons)
qed

lemma rows_loop_eq:
  assumes "\<And>x. js_lt (num x) cols = (x < n)" and "\<And>y. js_lt (num y) rows = (y < m)"
  shows "rows_loop step cols rows st y acc = Some (acc @ concat (map (\<lambda>j. concat (map (\<lambda>i.
      [js_add (js_sub (js_mul (num i) step) (js_div (num (canvas_width st)) (Fin 2)))
              (js_div step (Fin 2)),
       js_add (js_sub (js_mul (num j) step) (js_div (num (canvas_height st)) (Fin 2)))
              (js_div step (Fin 2))]) [0..<n])) [y..<m]))"
proof (induction "m - y" arbitrary: y acc)
  case 0
  then show ?case by (subst rows_loop.simps) (simp add: assms(2))
next
  case (Suc k)
  then have y: "y < m" and k: "k = m - Suc y" by simp_all
  show ?case
    by (subst rows_loop.simps)
      (simp add: assms(2) y cols_loop_eq[OF assms(1)] Suc.hyps(1)[OF k] upt_conv_Cons)
qed

lemma grid_length:
  "length (concat (map (\<lambda>j. concat (map (\<lambda>i. [f i j, g i j]) [0..<n])) [0..<m])) = 2 * n * m"
  by (simp add: length_concat comp_def sum_list_triv)

lemma js_max_num: "js_max (num w) (num h) = num (max w h)"
  by (simp add: js_max_def num_def max_def)

lemma grid_divisor: "js_sub GRID_SIZE (Fin 1) = Fin 69"
  by (simp add: GRID_SIZE_def js_sub_Fin)

lemma grid_step_eq:
  "grid_step st = js_div (num (max (canvas_width st) (canvas_height st))) (Fin 69)"
  by (simp add: grid_step_def js_max_num grid_divisor)

lemma grid_step_range:
  assumes "0 < max (canvas_width st) (canvas_height st)"
    and "canvas_width st < 2 ^ 32" and "canvas_height st < 2 ^ 32"
  shows "\<exists>s. grid_step st = Fin s \<and> pow2 (- 7) \<le> s \<and> s \<le> pow2 32"
proof -
  define m where "m = max (canvas_width st) (canvas_height st)"
  have m: "0 < m" "m < 2 ^ 32" using assms by (simp_all add: m_def)
  have "(1::rat) \<le> of_nat m" using m(1) by simp
  then have lo: "pow2 (- 7) \<le> of_nat m / 69" by (simp add: pow2_def)
  have "(of_nat m :: rat) < of_nat (2 ^ 32)" using m(2) by (simp only: of_nat_less_iff)
  then have hi: "of_nat m / 69 < pow2 32" by (simp add: pow2_def)
  have "grid_step st = round64 (of_nat m / 69)"
    using m(1) by (simp add: grid_step_eq js_div_Fin num_def flip: m_def)
  with round64_range[OF lo hi] show ?thesis by simp
qed

lemma grid_count_finite:
  assumes "pow2 (- 7) \<le> s" and "s \<le> pow2 32" and "w < 2 ^ 32"
  shows "js_ceil (js_div (num w) (Fin s)) \<noteq> PosInf"
proof (cases "w = 0")
  case True
  have "0 < s" using assms(1) pow2_pos[of "- 7"] by (rule less_le_trans[rotated])
  then have "js_div (num w) (Fin s) = Fin 0"
    using True by (simp add: js_div_Fin num_def signed_zero_def)
  then show ?thesis by simp
next
  case False
  have s: "0 < s" using assms(1) pow2_pos[of "- 7"] by (rule less_le_trans[rotated])
  have s7: "1 / 128 \<le> s" using assms(1) by (simp add: pow2_def)
  have s32: "s \<le> 4294967296" using assms(2) by (simp add: pow2_def)
  have w1: "(1::rat) \<le> of_nat w" using False by simp
  have "(of_nat w :: rat) < of_nat (2 ^ 32)" using assms(3) by (simp only: of_nat_less_iff)
  then have w2: "(of_nat w :: rat) < 4294967296" by simp
  have "pow2 (- 32) * s \<le> of_nat w" using s32 w1 by (simp add: pow2_def)
  then have lo: "pow2 (- 32) \<le> of_nat w / s" using s by (simp add: pos_le_divide_eq)
  have "of_nat w < pow2 39 * s" using s7 w2 by (simp add: pow2_def)
  then have hi: "of_nat w / s < pow2 39" using s by (simp add: pos_divide_less_eq)
  from round64_range[OF lo hi] obtain r where r: "round64 (of_nat w / s) = Fin r" by auto
  have "js_div (num w) (Fin s) = round64 (of_nat w / s)"
    using False s by (simp add: js_div_Fin num_def)
  then show ?thesis by (simp add: r)
qed

lemma grid_bounds_finite:
  assumes "canvas_width st < 2 ^ 32" and "canvas_height st < 2 ^ 32"
  shows "grid_cols st \<noteq> PosInf \<and> grid_rows st \<noteq> PosInf"
proof (cases "0 < max (canvas_width st) (canvas_height st)")
  case True
  from grid_step_range[OF True assms] obtain s
    where "grid_step st = Fin s" "pow2 (- 7) \<le> s" "s \<le> pow2 32" by auto
  then show ?thesis
    using grid_count_finite assms by (simp add: grid_cols_def grid_rows_def)
next
  case False
  then have "canvas_width st = 0" "canvas_height st = 0" by simp_all
  then show ?thesis
    by (simp add: grid_cols_def grid_rows_def grid_step_eq js_div_def num_def signed_zero_def)
qed

text \<open>What a rebuild does when the loop bounds admit \<open>n\<close> and \<open>m\<close> counter values: it ends,
  with \<open>n * m\<close> points that depend on the canvas size alone.\<close>

lemma rebuildGrid_result:
  assumes "\<And>x. js_lt (num x) (grid_cols st) = (x < n)"
    and "\<And>y. js_lt (num y) (grid_rows st) = (y < m)"
  shows "\<exists>P. length P = 2 * n * m \<and>
    (\<forall>st'. canvas_width st' = canvas_width st \<and> canvas_height st' = canvas_height st \<longrightarrow>
       rebuildGrid st' = Some (case gl st' of
           None \<Rightarrow> Inl (TypeError ''Cannot read properties of undefined'')
         | Some g \<Rightarrow> Inr (st'\<lparr>gl := Some (g\<lparr>positionBuffer := map f32 P,
               vertexCount := js_div (num (length P)) (Fin 2)\<rparr>)\<rparr>)))"
proof -
  define P where "P = concat (map (\<lambda>j. concat (map (\<lambda>i.
      [js_add (js_sub (js_mul (num i) (grid_step st)) (js_div (num (canvas_width st)) (Fin 2)))
              (js_div (grid_step st) (Fin 2)),
       js_add (js_sub (js_mul (num j) (grid_step st)) (js_div (num (canvas_height st)) (Fin 2)))
              (js_div (grid_step st) (Fin 2))]) [0..<n])) [0..<m])"
  have len: "length P = 2 * n * m" unfolding P_def by (rule grid_length)
  have "rebuildGrid st' = Some (case gl st' of
           None \<Rightarrow> Inl (TypeError ''Cannot read properties of undefined'')
         | Some g \<Rightarrow> Inr (st'\<lparr>gl := Some (g\<lparr>positionBuffer := map f32 P,
               vertexCount := js_div (num (length P)) (Fin 2)\<rparr>)\<rparr>))"
    if d: "canvas_width st' = canvas_width st" "canvas_height st' = canvas_height st" for st'
  proof -
    have s: "grid_step st' = grid_step st" by (simp add: grid_step_eq d)
    have c: "grid_cols st' = grid_cols st" "grid_rows st' = grid_rows st"
      by (simp_all add: grid_cols_def grid_rows_def s d)
    have "rows_loop (grid_step st) (grid_cols st) (grid_rows st) st' 0 [] = Some P"
      using rows_loop_eq[of "grid_cols st" n "grid_rows st" m "grid_step st" st' 0 "[]"] assms
      by (simp add: P_def d)
    then show ?thesis by (simp add: rebuildGrid_def s c)
  qed
  with len show ?thesis by blast
qed

lemma rebuildGrid_total:
  assumes "canvas_width (st :: state) < 2 ^ 32" and "canvas_height st < 2 ^ 32"
  shows "\<exists>P. \<forall>st'. canvas_width st' = canvas_width st \<and> canvas_height st' = canvas_height st \<longrightarrow>
       rebuildGrid st' = Some (case gl st' of
           None \<Rightarrow> Inl (TypeError ''Cannot read properties of undefined'')
         | Some g \<Rightarrow> Inr (st'\<lparr>gl := Some (g\<lparr>positionBuffer := map f32 P,
               vertexCount := js_div (num (length P)) (Fin 2)\<rparr>)\<rparr>))"
proof -
  from grid_bounds_finite[OF assms]
  have "grid_cols st \<noteq> PosInf" and "grid_rows st \<noteq> PosInf" by simp_all
  from js_lt_bound[OF this(1)] js_lt_bound[OF this(2)]
  obtain n m where n: "\<And>x. js_lt (num x) (grid_cols st) = (x < n)"
    and m: "\<And>y. js_lt (num y) (grid_rows st) = (y < m)" by auto
  from rebuildGrid_result[of st n, OF n m] obtain P where "length P = 2 * n * m \<and>
    (\<forall>st'. canvas_width st' = canvas_width st \<and> canvas_height st' = canvas_height st \<longrightarrow>
       rebuildGrid st' = Some (case gl st' of
           None \<Rightarrow> Inl (TypeError ''Cannot read properties of undefined'')
         | Some g \<Rightarrow> Inr (st'\<lparr>gl := Some (g\<lparr>positionBuffer := map f32 P,
               vertexCount := js_div (num (length P)) (Fin 2)\<rparr>)\<rparr>)))" ..
  then show ?thesis by (intro exI[of _ P]) (rule conjunct2)
qed

text \<open>
  C7. For every canvas size (a canvas dimension is an unsigned 32-bit integer) a rebuild
  ends, and two consecutive rebuilds with the same width and height produce the same point
  sequence: the second leaves the state as the first left it. More generally the sequence
  is determined by the width and height alone.
\<close>

theorem rebuildGrid_idempotent:
  assumes "canvas_width st < 2 ^ 32" and "canvas_height st < 2 ^ 32" and "gl st = Some g"
    and "canvas_width st' = canvas_width st" and "canvas_height st' = canvas_height st"
    and "gl st' = Some g'"
  shows "\<exists>st1 st1'. rebuildGrid st = Some (Inr st1) \<and> rebuildGrid st1 = Some (Inr st1)
     \<and> rebuildGrid st' = Some (Inr st1')
     \<and> map_option positionBuffer (gl st1') = map_option positionBuffer (gl st1)
     \<and> map_option vertexCount (gl st1') = map_option vertexCount (gl st1)"
proof -
  from rebuildGrid_total[OF assms(1,2)] obtain P where
    P: "\<And>s. canvas_width s = canvas_width st \<and> canvas_height s = canvas_height st \<Longrightarrow>
       rebuildGrid s = Some (case gl s of
           None \<Rightarrow> Inl (TypeError ''Cannot read properties of undefined'')
         | Some g \<Rightarrow> Inr (s\<lparr>gl := Some (g\<lparr>positionBuffer := map f32 P,
               vertexCount := js_div (num (length P)) (Fin 2)\<rparr>)\<rparr>))"
    by blast
  define st1 where "st1 = st\<lparr>gl := Some (g\<lparr>positionBuffer := map f32 P,
               vertexCount := js_div (num (length P)) (Fin 2)\<rparr>)\<rparr>"
  define st1' where "st1' = st'\<lparr>gl := Some (g'\<lparr>positionBuffer := map f32 P,
               vertexCount := js_div (num (length P)) (Fin 2)\<rparr>)\<rparr>"
  have 1: "rebuildGrid st = Some (Inr st1)" using P[of st] assms(3) by (simp add: st1_def)
  have 2: "rebuildGrid st1 = Some (Inr st1)" using P[of st1] by (simp add: st1_def)
  have 3: "rebuildGrid st' = Some (Inr st1')" using P[of st'] assms(4-6) by (simp add: st1'_def)
  show ?thesis using 1 2 3 by (auto simp: st1_def st1'_def)
qed

theorem rebuildGrid_idempotent_witness:
  "\<exists>st1 st1'.
     rebuildGrid (initial_state (Fin 0)\<lparr>gl := Some fresh_context\<rparr>) = Some (Inr st1)
     \<and> rebuildGrid st1 = Some (Inr st1)
     \<and> rebuildGrid (initial_state (Fin 5)\<lparr>gl := Some fresh_context, mouseX := Fin 7\<rparr>)
         = Some (Inr st1')
     \<and> map_option positionBuffer (gl st1') = map_option positionBuffer (gl st1)
     \<and> map_option vertexCount (gl st1') = map_option vertexCount (gl st1)"
proof -
  let ?st = "initial_state (Fin 0)\<lparr>gl := Some fresh_context\<rparr>"
  let ?st' = "initial_state (Fin 5)\<lparr>gl := Some fresh_context, mouseX := Fin 7\<rparr>"
  have 1: "canvas_width ?st < 2 ^ 32" by (simp add: initial_state_def)
  have 2: "canvas_height ?st < 2 ^ 32" by (simp add: initial_state_def)
  have 3: "gl ?st = Some fresh_context" by simp
  have 4: "canvas_width ?st' = canvas_width ?st" by (simp add: initial_state_def)
  have 5: "canvas_height ?st' = canvas_height ?st" by (simp add: initial_state_def)
  have 6: "gl ?st' = Some fresh_context" by simp
  show ?thesis using rebuildGrid_idempotent[OF 1 2 3 4 5 6] .
qed

section \<open>The grid of an 800 by 600 canvas\<close>

lemma round64_near:
  assumes "pow2 e \<le> \<bar>x\<bar>" and "\<bar>x\<bar> < pow2 (e + 1)" and "- 1022 \<le> e"
    and "\<bar>x / pow2 (e - 52) - of_int n\<bar> < 1 / 2"
    and "r = pow2 (e - 52) * of_int n" and "r \<noteq> 0" and "\<bar>r\<bar> < pow2 1024"
  shows "round64 x = Fin r"
proof -
  have "round_to 53 (- 1022) x = pow2 (e - 52) * of_int n"
    using assms(1,2) _ assms(4) by (rule round_to_near) (use assms(3) in simp)
  then show ?thesis
    using assms(5-7) by (simp add: round64_def round_ieee_def Let_def)
qed

lemma step_800: "js_div (Fin 800) (Fin 69) = Fin (6526955981696371 / 562949953421312)"
proof -
  have "round64 (800 / 69) = Fin (6526955981696371 / 562949953421312)"
    by (rule round64_near[where e = 3 and n = 6526955981696371]) (simp_all add: pow2_def)
  then show ?thesis by (simp add: js_div_Fin)
qed

lemma cols_800: "js_div (Fin 800) (Fin (6526955981696371 / 562949953421312)) = Fin 69"
proof -
  have "round64 (800 / (6526955981696371 / 562949953421312)) = Fin 69"
    by (rule round64_near[where e = 6 and n = 4855443348258816]) (simp_all add: pow2_def)
  then show ?thesis by (simp add: js_div_Fin)
qed

lemma rows_600: "js_div (Fin 600) (Fin (6526955981696371 / 562949953421312)) = Fin (207 / 4)"
proof -
  have "round64 (600 / (6526955981696371 / 562949953421312)) = Fin (207 / 4)"
    by (rule round64_near[where e = 5 and n = 7283165022388224]) (simp_all add: pow2_def)
  then show ?thesis by (simp add: js_div_Fin)
qed

lemma ceiling_207_4: "\<lceil>207 / 4 :: rat\<rceil> = 52"
  by (rule ceiling_unique) simp_all

lemma grid_800_600_values:
  assumes "canvas_width st = 800" and "canvas_height st = 600" and "gl st = Some g"
  shows "grid_step st = Fin (6526955981696371 / 562949953421312)"
    and "grid_cols st = Fin 69" and "grid_rows st = Fin 52"
    and "emitted_points st = Some (Fin 3588)"
proof -
  show s: "grid_step st = Fin (6526955981696371 / 562949953421312)"
    using step_800 by (simp add: grid_step_eq assms num_def)
  show c: "grid_cols st = Fin 69"
    using cols_800 by (simp add: grid_cols_def s assms num_def)
  show r: "grid_rows st = Fin 52"
    using rows_600 by (simp add: grid_rows_def s assms num_def ceiling_207_4)
  have "js_lt (num x) (grid_cols st) = (x < 69)" for x by (simp add: c num_def)
  moreover have "js_lt (num y) (grid_rows st) = (y < 52)" for y by (simp add: r num_def)
  ultimately obtain P where P: "length P = 2 * 69 * 52"
    "rebuildGrid st = Some (case gl st of
           None \<Rightarrow> Inl (TypeError ''Cannot read properties of undefined'')
         | Some g \<Rightarrow> Inr (st\<lparr>gl := Some (g\<lparr>positionBuffer := map f32 P,
               vertexCount := js_div (num (length P)) (Fin 2)\<rparr>)\<rparr>))"
    using rebuildGrid_result[of st 69 52] by blast
  have "js_div (num (length P)) (Fin 2) = Fin 3588"
    by (simp add: P(1) num_def js_div_Fin)
  then show "emitted_points st = Some (Fin 3588)"
    by (simp add: emitted_points_def P(2) assms(3))
qed

text \<open>
  C2. On a canvas of 800 by 600, with \<open>GRID_SIZE = 70\<close>, \<open>rebuildGrid\<close> uses the step
  \<open>800 / 69\<close> (the double \<open>11.594202898550725\<close>); the quotient \<open>800 / step\<close> is exactly 69, so
  there are 69 columns, and 52 rows, and \<open>69 * 52 = 3588\<close> points are emitted.
\<close>

theorem grid_800_600:
  "grid_step (st\<lparr>canvas_width := 800, canvas_height := 600, gl := Some g\<rparr>)
      = js_div (Fin 800) (Fin 69)
   \<and> grid_step (st\<lparr>canvas_width := 800, canvas_height := 600, gl := Some g\<rparr>)
      = Fin (6526955981696371 / 562949953421312)
   \<and> grid_cols (st\<lparr>canvas_width := 800, canvas_height := 600, gl := Some g\<rparr>) = Fin 69
   \<and> grid_rows (st\<lparr>canvas_width := 800, canvas_height := 600, gl := Some g\<rparr>) = Fin 52
   \<and> emitted_points (st\<lparr>canvas_width := 800, canvas_height := 600, gl := Some g\<rparr>)
      = Some (Fin 3588)"
  using grid_800_600_values[of "st\<lparr>canvas_width := 800, canvas_height := 600, gl := Some g\<rparr>" g]
  by (simp add: step_800)

text \<open>The count is neither 70 columns nor 3640 points.\<close>

theorem grid_800_600_counterexample:
  "grid_cols (initial_state (Fin 0)
      \<lparr>canvas_width := 800, canvas_height := 600, gl := Some fresh_context\<rparr>) \<noteq> Fin 70
   \<and> emitted_points (initial_state (Fin 0)
      \<lparr>canvas_width := 800, canvas_height := 600, gl := Some fresh_context\<rparr>)
      \<noteq> Some (Fin 3640)"
  using grid_800_600_values[of "initial_state (Fin 0)
      \<lparr>canvas_width := 800, canvas_height := 600, gl := Some fresh_context\<rparr>" fresh_context]
  by simp

section \<open>The arithmetic of the vertex shader\<close>

lemma glsl_sub_Fin:
  "glsl_sub (Fin x) (Fin y) = (if x = y then Fin 0 else round32 (x - y))"
  by (auto simp: glsl_sub_def glsl_add_def signed_zero_def)

lemma glsl_add_Fin:
  "glsl_add (Fin x) (Fin y) = (if x + y = 0 then Fin 0 else round32 (x + y))"
  by (auto simp: glsl_add_def signed_zero_def)

lemma glsl_mul_Fin:
  "glsl_mul (Fin x) (Fin y) =
     (if x = 0 \<or> y = 0 then signed_zero ((x < 0) \<noteq> (y < 0)) else round32 (x * y))"
  by (auto simp: glsl_mul_def)

lemma glsl_div_Fin:
  "y \<noteq> 0 \<Longrightarrow> glsl_div (Fin x) (Fin y) =
     (if x = 0 then signed_zero ((x < 0) \<noteq> (y < 0)) else round32 (x / y))"
  by (auto simp: glsl_div_def)

lemma round32_near:
  assumes "pow2 e \<le> \<bar>x\<bar>" and "\<bar>x\<bar> < pow2 (e + 1)" and "- 126 \<le> e"
    and "\<bar>x / pow2 (e - 23) - of_int n\<bar> < 1 / 2"
    and "r = pow2 (e - 23) * of_int n" and "r \<noteq> 0" and "\<bar>r\<bar> < pow2 128"
  shows "round32 x = Fin r"
proof -
  have "round_to 24 (- 126) x = pow2 (e - 23) * of_int n"
    using assms(1,2) _ assms(4) by (rule round_to_near) (use assms(3) in simp)
  then show ?thesis
    using assms(5-7) by (simp add: round32_def round_ieee_def Let_def)
qed

text \<open>A nonzero result below half of the least subnormal value rounds to a zero of its
  sign.\<close>

lemma round32_underflow:
  assumes "x \<noteq> 0" and "\<bar>x\<bar> < pow2 (- 150)"
  shows "round32 x = signed_zero (x < 0)"
proof -
  have pos: "0 < \<bar>x\<bar>" using assms(1) by simp
  from ilog2_correct[OF pos] have "pow2 (ilog2 \<bar>x\<bar>) \<le> \<bar>x\<bar>" by simp
  with assms(2) have "pow2 (ilog2 \<bar>x\<bar>) < pow2 (- 150)" by simp
  then have e: "ilog2 \<bar>x\<bar> < - 150" by (rule pow2_less_cancel)
  have q: "pow2 (- 149) = 2 * pow2 (- 150)" by (simp add: pow2_def)
  have "\<bar>x / pow2 (- 149)\<bar> < 1 / 2"
    using assms(2) pow2_pos[of "- 150"] by (simp add: q abs_divide divide_less_eq)
  then have "\<bar>x / pow2 (- 149) - of_int 0\<bar> < 1 / 2" by simp
  then have "round_half_even (x / pow2 (- 149)) = 0" by (rule round_half_even_near)
  then have "round_to 24 (- 126) x = 0"
    using e by (simp add: round_to_def Let_def max_def)
  then show ?thesis
    by (simp add: round32_def round_ieee_def Let_def pow2_def)
qed

lemma isqrt_correct:
  "0 \<le> k \<Longrightarrow> 0 \<le> isqrt k \<and> isqrt k * isqrt k \<le> k \<and> k < (isqrt k + 1) * (isqrt k + 1)"
proof (induction k rule: isqrt.induct)
  case (1 k)
  show ?case
  proof (cases "k < 1")
    case True
    with "1.prems" have "k = 0" by simp
    then show ?thesis by (simp add: isqrt.simps)
  next
    case False
    define s where "s = isqrt (k div 4)"
    have "0 \<le> k div 4" using "1.prems" by simp
    with "1.IH"[OF False] have IH: "0 \<le> s" "s * s \<le> k div 4" "k div 4 < (s + 1) * (s + 1)"
      by (auto simp: s_def)
    have lo: "(2 * s) * (2 * s) \<le> k"
    proof -
      have "(2 * s) * (2 * s) = 4 * (s * s)" by simp
      also have "\<dots> \<le> 4 * (k div 4)" using IH(2) by simp
      also have "\<dots> \<le> k" by simp
      finally show ?thesis .
    qed
    have hi: "k < (2 * s + 2) * (2 * s + 2)"
    proof -
      have "k < 4 * (k div 4) + 4" by simp
      also have "\<dots> \<le> 4 * ((s + 1) * (s + 1))" using IH(3) by simp
      also have "\<dots> = (2 * s + 2) * (2 * s + 2)" by (simp add: algebra_simps)
      finally show ?thesis .
    qed
    have r: "isqrt k = (if (2 * s + 1) * (2 * s + 1) \<le> k then 2 * s + 1 else 2 * s)"
      using False by (subst isqrt.simps) (simp add: Let_def s_def)
    show ?thesis
    proof (cases "(2 * s + 1) * (2 * s + 1) \<le> k")
      case True
      with r have v: "isqrt k = 2 * s + 1" by simp
      have "k < (2 * s + 1 + 1) * (2 * s + 1 + 1)" using hi by (simp add: algebra_simps)
      with True IH(1) show ?thesis by (simp only: v) simp
    next
      case c: False
      with r lo IH(1) show ?thesis by simp
    qed
  qed
qed

lemma isqrt_eqI:
  assumes "0 \<le> n" and "n * n \<le> k" and "k < (n + 1) * (n + 1)"
  shows "isqrt k = n"
proof -
  have k: "0 \<le> k" using assms(1,2) by (meson mult_nonneg_nonneg order_trans)
  from isqrt_correct[OF k]
  have c: "0 \<le> isqrt k" "isqrt k * isqrt k \<le> k" "k < (isqrt k + 1) * (isqrt k + 1)"
    by auto
  have "\<not> isqrt k < n"
  proof
    assume "isqrt k < n"
    then have "isqrt k + 1 \<le> n" by simp
    then have "(isqrt k + 1) * (isqrt k + 1) \<le> n * n" using c(1) by (intro mult_mono) auto
    with assms(2) c(3) show False by simp
  qed
  moreover have "\<not> n < isqrt k"
  proof
    assume "n < isqrt k"
    then have "n + 1 \<le> isqrt k" by simp
    then have "(n + 1) * (n + 1) \<le> isqrt k * isqrt k" using assms(1) by (intro mult_mono) auto
    with assms(3) c(2) show False by simp
  qed
  ultimately show ?thesis by simp
qed

text \<open>A certificate for one square root.\<close>

lemma glsl_sqrt_near:
  assumes "pow2 (2 * e) \<le> x" and "x < pow2 (2 * e + 2)"
    and "of_int k \<le> 4 * (x / (pow2 (e - 23) * pow2 (e - 23)))"
    and "4 * (x / (pow2 (e - 23) * pow2 (e - 23))) < of_int k + 1"
    and "0 \<le> s" and "s * s \<le> k" and "k < (s + 1) * (s + 1)"
    and "r = pow2 (e - 23) * of_int ((s + 1) div 2)"
  shows "glsl_sqrt (Fin x) = Fin r"
proof -
  have pos: "0 < x" using assms(1) pow2_pos[of "2 * e"] by (rule less_le_trans[rotated])
  from ilog2_correct[OF pos] have c: "pow2 (ilog2 x) \<le> x" "x < pow2 (ilog2 x + 1)" by auto
  have "pow2 (2 * e) < pow2 (ilog2 x + 1)" using assms(1) c(2) by simp
  then have a: "2 * e < ilog2 x + 1" by (rule pow2_less_cancel)
  have "pow2 (ilog2 x) < pow2 (2 * e + 2)" using assms(2) c(1) by simp
  then have b: "ilog2 x < 2 * e + 2" by (rule pow2_less_cancel)
  have e: "ilog2 x div 2 = e" using a b by simp
  have f: "\<lfloor>4 * (x / (pow2 (e - 23) * pow2 (e - 23)))\<rfloor> = k"
    using assms(3,4) by (simp only: floor_unique)
  have i: "isqrt k = s" using assms(5-7) by (rule isqrt_eqI)
  have n: "\<not> x < 0" "x \<noteq> 0" using pos by auto
  show ?thesis by (simp only: glsl_sqrt.simps n if_False Let_def e f i assms(8))
qed

lemma pow2_nonneg: "0 \<le> pow2 e"
  using pow2_pos[of e] by (rule less_imp_le)

lemma round_to_sign:
  shows "0 \<le> x \<Longrightarrow> 0 \<le> round_to p emin x" and "x \<le> 0 \<Longrightarrow> round_to p emin x \<le> 0"
proof -
  define q where "q = pow2 (max (ilog2 \<bar>x\<bar>) emin - int p + 1)"
  have q: "0 < q" by (simp add: q_def)
  have r: "round_to p emin x = q * of_int (round_half_even (x / q))"
    by (simp add: round_to_def Let_def q_def)
  {
    assume "0 \<le> x"
    then have "of_int 0 \<le> x / q" using q by simp
    then have "0 \<le> round_half_even (x / q)" by (rule round_half_even_ge)
    then show "0 \<le> round_to p emin x" using q by (simp add: r)
  }
  {
    assume "x \<le> 0"
    then have "x / q \<le> of_int 0" using q by (simp add: divide_le_0_iff)
    then have "round_half_even (x / q) \<le> 0" by (rule round_half_even_le)
    then show "round_to p emin x \<le> 0" using q by (simp add: r mult_le_0_iff)
  }
qed

lemma round_to_abs_le:
  assumes "x \<noteq> 0" and "\<bar>x\<bar> < pow2 k" and "emin < k"
  shows "\<bar>round_to p emin x\<bar> \<le> pow2 k"
proof -
  define e where "e = ilog2 \<bar>x\<bar>"
  define E where "E = max e emin"
  define q where "q = pow2 (E - int p + 1)"
  have q: "0 < q" by (simp add: q_def)
  have pos: "0 < \<bar>x\<bar>" using assms(1) by simp
  from ilog2_correct[OF pos] have c: "pow2 e \<le> \<bar>x\<bar>" "\<bar>x\<bar> < pow2 (e + 1)"
    by (auto simp: e_def)
  have "pow2 e < pow2 k" using c(1) assms(2) by simp
  then have "e < k" by (rule pow2_less_cancel)
  then have Ek: "E + 1 \<le> k" using assms(3) by (simp add: E_def)
  have "pow2 (e + 1) \<le> pow2 (E + 1)" by (rule pow2_mono) (simp add: E_def)
  with c(2) have x: "\<bar>x\<bar> < pow2 (E + 1)" by simp
  have pe: "pow2 (E + 1) = q * of_int (2 ^ p)"
  proof -
    have "pow2 (E + 1) = q * pow2 (int p)" by (simp add: q_def pow2_add[symmetric])
    then show ?thesis by (simp add: pow2_of_nat)
  qed
  have "\<bar>x / q\<bar> < of_int (2 ^ p)"
    using x q by (simp add: pe abs_divide pos_divide_less_eq mult.commute)
  then have b: "x / q \<le> of_int (2 ^ p)" "of_int (- (2 ^ p)) \<le> x / q"
    by (simp_all only: abs_less_iff of_int_minus) simp_all
  have "round_half_even (x / q) \<le> 2 ^ p" using b(1) by (rule round_half_even_le)
  moreover have "- (2 ^ p) \<le> round_half_even (x / q)" using b(2) by (rule round_half_even_ge)
  ultimately have "\<bar>round_half_even (x / q)\<bar> \<le> 2 ^ p" by simp
  then have "(of_int \<bar>round_half_even (x / q)\<bar> :: rat) \<le> of_int (2 ^ p)"
    by (simp only: of_int_le_iff)
  then have "q * of_int \<bar>round_half_even (x / q)\<bar> \<le> q * of_int (2 ^ p)"
    using q by (simp only: mult_le_cancel_left_pos)
  moreover have "\<bar>round_to p emin x\<bar> = q * of_int \<bar>round_half_even (x / q)\<bar>"
    using q by (simp add: round_to_def Let_def q_def E_def e_def abs_mult)
  ultimately have "\<bar>round_to p emin x\<bar> \<le> pow2 (E + 1)" by (simp only: pe)
  also have "\<dots> \<le> pow2 k" using Ek by (rule pow2_mono)
  finally show ?thesis .
qed

text \<open>Rounding keeps the sign, and a result below \<open>2^127\<close> in magnitude stays finite.\<close>

lemma round32_sign:
  assumes "x \<noteq> 0"
  shows "\<not> is_nan (round32 x) \<and> is_neg (round32 x) = (x < 0)"
proof (cases "x < 0")
  case True
  then have "round_to 24 (- 126) x \<le> 0" by (intro round_to_sign) simp
  with True show ?thesis
    by (auto simp: round32_def round_ieee_def Let_def signed_inf_def signed_zero_def)
next
  case False
  then have "0 \<le> round_to 24 (- 126) x" by (intro round_to_sign) simp
  with False show ?thesis
    by (auto simp: round32_def round_ieee_def Let_def signed_inf_def signed_zero_def)
qed

lemma round32_small:
  assumes "x \<noteq> 0" and "\<bar>x\<bar> < pow2 k" and "- 126 < k" and "k \<le> 127"
  shows "is_finite (round32 x) \<and> \<bar>rat_of (round32 x)\<bar> \<le> pow2 k"
proof -
  have r: "\<bar>round_to 24 (- 126) x\<bar> \<le> pow2 k" using assms(1-3) by (rule round_to_abs_le)
  have "pow2 k < pow2 128" using pow2_mono[of k 127] assms(4) by (simp add: pow2_def)
  with r have "\<not> pow2 (127 + 1) \<le> \<bar>round_to 24 (- 126) x\<bar>" by simp
  with r show ?thesis
    by (auto simp: round32_def round_ieee_def Let_def signed_zero_def)
qed

lemma rat_of_round32: "\<bar>rat_of (round32 x)\<bar> < pow2 128"
  by (auto simp: round32_def round_ieee_def Let_def signed_zero_def signed_inf_def not_le)

lemma rat_of_glsl_add: "\<bar>rat_of (glsl_add a b)\<bar> < pow2 128"
  using rat_of_round32[of "rat_of a + rat_of b"]
  by (cases a; cases b) (auto simp: glsl_add_def signed_zero_def Let_def)

lemma rat_of_glsl_sub: "\<bar>rat_of (glsl_sub a b)\<bar> < pow2 128"
  by (simp add: glsl_sub_def rat_of_glsl_add)

text \<open>A certificate for a rounding that falls halfway between two values.\<close>

lemma round_half_even_tie:
  assumes "y = of_int f + 1 / 2"
  shows "round_half_even y = (if even f then f else f + 1)"
proof -
  have "of_int f \<le> y" "y < of_int f + 1" using assms by simp_all
  then have "\<lfloor>y\<rfloor> = f" by (simp only: floor_unique)
  then show ?thesis using assms by (simp add: round_half_even_def Let_def)
qed

lemma round32_tie:
  assumes "pow2 e \<le> \<bar>x\<bar>" and "\<bar>x\<bar> < pow2 (e + 1)" and "- 126 \<le> e"
    and "x / pow2 (e - 23) = of_int f + 1 / 2"
    and "r = pow2 (e - 23) * of_int (if even f then f else f + 1)"
    and "r \<noteq> 0" and "\<bar>r\<bar> < pow2 128"
  shows "round32 x = Fin r"
proof -
  have "ilog2 \<bar>x\<bar> = e" using assms(1,2) by (rule ilog2_eqI)
  then have "round_to 24 (- 126) x = r"
    using assms(3,5) round_half_even_tie[OF assms(4)] by (simp add: round_to_def Let_def max_def)
  then show ?thesis
    using assms(6,7) by (simp add: round32_def round_ieee_def Let_def)
qed

lemma of_rat_pow2: "(of_rat (pow2 k) :: real) = 2 powr (of_int k)"
proof (cases "0 \<le> k")
  case True
  then have "(2::real) powr of_int k = 2 ^ nat k"
    by (simp add: powr_realpow[symmetric])
  with True show ?thesis by (simp add: pow2_def of_rat_power)
next
  case False
  then have "(2::real) powr of_int k = inverse (2 powr (of_int (- k)))"
    by (simp add: powr_minus[symmetric])
  also have "\<dots> = inverse (2 ^ nat (- k))"
    using False by (simp add: powr_realpow[symmetric])
  finally show ?thesis
    using False by (simp add: pow2_def of_rat_divide of_rat_power inverse_eq_divide)
qed

lemma round_half_even_real_of_int: "round_half_even_real (of_int n) = n"
  by (simp add: round_half_even_real_def)

lemma round_half_even_real_abs: "\<bar>of_int (round_half_even_real y)\<bar> \<le> \<bar>y\<bar> + 1"
  by (auto simp: round_half_even_real_def Let_def) linarith+

lemma round32_real_one: "round32_real 1 = Fin 1"
proof -
  have p: "(2::real) powr (- 23) = 1 / 2 ^ 23"
    by (simp add: powr_minus inverse_eq_divide)
  have "round_half_even_real (1 / 2 powr (- 23)) = round_half_even_real (of_int 8388608)"
    by (simp add: p)
  also have "\<dots> = 8388608" by (simp only: round_half_even_real_of_int)
  finally have n: "round_half_even_real (1 / 2 powr (- 23)) = 8388608" .
  show ?thesis by (simp add: round32_real_def Let_def n) (simp add: pow2_def)
qed

text \<open>A real number of magnitude at most 1 rounds to a finite value.\<close>

lemma round32_real_small:
  assumes "\<bar>x\<bar> \<le> 1"
  shows "is_finite (round32_real x) \<and> \<bar>rat_of (round32_real x)\<bar> \<le> 2"
proof (cases "x = 0")
  case True
  then show ?thesis by (simp add: round32_real_def)
next
  case False
  define e where "e = max \<lfloor>log 2 \<bar>x\<bar>\<rfloor> (- 126)"
  define n where "n = round_half_even_real (x / 2 powr (of_int e - 23))"
  define r where "r = pow2 (e - 23) * of_int n"
  have "log 2 \<bar>x\<bar> \<le> 0" using assms False by (simp add: log_le_zero_cancel_iff)
  then have "\<lfloor>log 2 \<bar>x\<bar>\<rfloor> \<le> 0" by (simp add: floor_le_iff)
  then have e: "e \<le> 0" by (simp add: e_def)
  have q: "(0::real) < 2 powr (of_int e - 23)" by simp
  have q1: "(2::real) powr (of_int e - 23) \<le> 1"
  proof -
    have "(2::real) powr (of_int e - 23) \<le> 2 powr 0" using e by (intro powr_mono) auto
    then show ?thesis by simp
  qed
  have "\<bar>of_int n :: real\<bar> \<le> \<bar>x / 2 powr (of_int e - 23)\<bar> + 1"
    unfolding n_def by (rule round_half_even_real_abs)
  then have "2 powr (of_int e - 23) * \<bar>of_int n :: real\<bar>
      \<le> 2 powr (of_int e - 23) * (\<bar>x / 2 powr (of_int e - 23)\<bar> + 1)"
    using q by (simp only: mult_le_cancel_left_pos)
  also have "\<dots> = \<bar>x\<bar> + 2 powr (of_int e - 23)"
    using q by (simp add: abs_divide distrib_left)
  also have "\<dots> \<le> 2" using assms q1 by simp
  finally have b: "2 powr (of_int e - 23) * \<bar>of_int n :: real\<bar> \<le> 2" .
  have "(of_rat \<bar>of_int n\<bar> :: real) = \<bar>of_int n\<bar>"
    by (simp only: of_int_abs[symmetric] of_rat_of_int_eq)
  then have "(of_rat \<bar>r\<bar> :: real) = 2 powr (of_int e - 23) * \<bar>of_int n\<bar>"
    using of_rat_pow2[of "e - 23"] by (simp add: r_def abs_mult of_rat_mult)
  with b have "(of_rat \<bar>r\<bar> :: real) \<le> of_rat 2" by simp
  then have r2: "\<bar>r\<bar> \<le> 2" by (simp only: of_rat_less_eq)
  have "(2::rat) < pow2 128" by (simp add: pow2_def)
  with r2 have no: "\<not> pow2 128 \<le> \<bar>r\<bar>" by simp
  have "round32_real x = (if r = 0 then signed_zero (x < 0) else Fin r)"
    using False no by (simp add: round32_real_def Let_def flip: e_def n_def r_def)
  with r2 show ?thesis by (simp add: signed_zero_def)
qed

lemma glsl_exp_zero: "is_zero z \<Longrightarrow> glsl_exp z = Fin 1"
  by (cases z) (simp_all add: round32_real_one)

lemma glsl_sin_zero: "glsl_sin (Fin 0) = Fin 0"
  by (simp add: round32_real_def)

lemma glsl_sin_finite:
  "is_finite a \<Longrightarrow> is_finite (glsl_sin a) \<and> \<bar>rat_of (glsl_sin a)\<bar> \<le> 2"
  by (cases a) (simp_all add: round32_real_small)

section \<open>The displacement computed by the vertex shader\<close>

lemma smoothstep_at_0: "smoothstep (Fin 150) (Fin 0) (Fin 0) = Fin 1"
  by (simp add: smoothstep_def glsl_clamp_def glsl_max_def glsl_min_def Let_def
      glsl_sub_Fin glsl_div_Fin glsl_mul_Fin)

text \<open>From a computed distance of 150 on, the argument of the clamp is negative or a
  negative zero, the clamp gives a zero, and the cubic is the positive zero.\<close>

lemma sub_radius_sign:
  assumes "\<not> is_nan d" and "\<not> js_lt d (Fin 150)"
  shows "\<not> is_nan (glsl_sub d (Fin 150)) \<and> \<not> is_neg (glsl_sub d (Fin 150))"
proof (cases d)
  case (Fin x)
  with assms(2) have x: "150 \<le> x" by simp
  show ?thesis
  proof (cases "x = 150")
    case True
    then show ?thesis by (simp add: Fin glsl_sub_Fin)
  next
    case False
    with x have "x - 150 \<noteq> 0" "\<not> x - 150 < 0" by auto
    with round32_sign[of "x - 150"] False show ?thesis by (simp add: Fin glsl_sub_Fin)
  qed
next
  case PosInf
  then show ?thesis by (simp add: glsl_sub_def glsl_add_def)
qed (use assms in simp_all)

lemma div_radius_sign:
  assumes "\<not> is_nan u" and "\<not> is_neg u"
  shows "\<not> is_nan (glsl_div u (Fin (- 150))) \<and> is_neg (glsl_div u (Fin (- 150)))"
proof (cases u)
  case (Fin r)
  with assms(2) have r: "0 \<le> r" by simp
  show ?thesis
  proof (cases "r = 0")
    case True
    then show ?thesis by (simp add: Fin glsl_div_Fin signed_zero_def)
  next
    case False
    with r have "r / (- 150) \<noteq> 0" "r / (- 150) < 0" by auto
    with round32_sign[of "r / (- 150)"] False show ?thesis by (simp add: Fin glsl_div_Fin)
  qed
next
  case PosInf
  then show ?thesis by (simp add: glsl_div_def signed_inf_def)
qed (use assms in simp_all)

lemma clamp_negative:
  assumes "\<not> is_nan q" and "is_neg q"
  shows "is_zero (glsl_clamp q (Fin 0) (Fin 1))"
  using assms by (cases q) (simp_all add: glsl_clamp_def glsl_max_def glsl_min_def)

lemma cubic_zero:
  assumes "is_zero t"
  shows "glsl_mul (glsl_mul t t) (glsl_sub (Fin 3) (glsl_mul (Fin 2) t)) = Fin 0"
  using assms
  by (cases t) (simp_all add: glsl_mul_def glsl_sub_def glsl_add_def signed_zero_def)

lemma smoothstep_far:
  assumes "\<not> is_nan d" and "\<not> js_lt d (Fin 150)"
  shows "smoothstep (Fin 150) (Fin 0) d = Fin 0"
proof -
  have e: "glsl_sub (Fin 0) (Fin 150) = Fin (- 150)" by (simp add: glsl_sub_Fin)
  from sub_radius_sign[OF assms]
  have "\<not> is_nan (glsl_sub d (Fin 150))" "\<not> is_neg (glsl_sub d (Fin 150))" by auto
  from div_radius_sign[OF this]
  have "\<not> is_nan (glsl_div (glsl_sub d (Fin 150)) (Fin (- 150)))"
    "is_neg (glsl_div (glsl_sub d (Fin 150)) (Fin (- 150)))" by auto
  then have "is_zero (glsl_clamp (glsl_div (glsl_sub d (Fin 150)) (Fin (- 150))) (Fin 0) (Fin 1))"
    by (rule clamp_negative)
  then show ?thesis by (simp only: smoothstep_def Let_def e cubic_zero)
qed

text \<open>Below a computed distance of 150 the argument of the clamp lies between 0 and 1,
  and the clamp leaves it.\<close>

lemma round_to_ge_m150:
  assumes "- 150 \<le> x" and "x < 0"
  shows "- 150 \<le> round_to 24 (- 126) x"
proof (cases "\<bar>x\<bar> < pow2 7")
  case True
  have "x \<noteq> 0" using assms(2) by simp
  from round_to_abs_le[OF this True, of "- 126" 24]
  have "\<bar>round_to 24 (- 126) x\<bar> \<le> pow2 7" by simp
  then have "- pow2 7 \<le> round_to 24 (- 126) x" by simp
  moreover have "- 150 \<le> - pow2 7" by (simp add: pow2_def)
  ultimately show ?thesis by simp
next
  case False
  then have lo: "pow2 7 \<le> \<bar>x\<bar>" by simp
  have hi: "\<bar>x\<bar> < pow2 (7 + 1)" using assms by (simp add: pow2_def)
  have e: "ilog2 \<bar>x\<bar> = 7" using lo hi by (rule ilog2_eqI)
  have q: "pow2 (- 16) = 1 / 65536" by (simp add: pow2_def)
  have "of_int (- 9830400) \<le> x / pow2 (- 16)" using assms(1) by (simp add: q)
  then have "- 9830400 \<le> round_half_even (x / pow2 (- 16))" by (rule round_half_even_ge)
  then have "(of_int (- 9830400) :: rat) \<le> of_int (round_half_even (x / pow2 (- 16)))"
    by (simp only: of_int_le_iff)
  then have "pow2 (- 16) * of_int (- 9830400)
      \<le> pow2 (- 16) * of_int (round_half_even (x / pow2 (- 16)))"
    using pow2_pos[of "- 16"] by (simp only: mult_le_cancel_left_pos)
  moreover have "round_to 24 (- 126) x = pow2 (- 16) * of_int (round_half_even (x / pow2 (- 16)))"
    by (simp add: round_to_def Let_def e)
  moreover have "pow2 (- 16) * of_int (- 9830400) = - 150" by (simp add: q)
  ultimately show ?thesis by simp
qed

lemma sub_radius_near:
  assumes "0 \<le> d" and "d < 150"
  shows "is_finite (glsl_sub (Fin d) (Fin 150)) \<and> is_neg (glsl_sub (Fin d) (Fin 150))
    \<and> - 150 \<le> rat_of (glsl_sub (Fin d) (Fin 150))"
proof -
  have x: "d - 150 \<noteq> 0" "d - 150 < 0" "- 150 \<le> d - 150" using assms by auto
  have "\<bar>d - 150\<bar> < pow2 8" using assms by (simp add: pow2_def)
  from round32_small[OF x(1) this] have f: "is_finite (round32 (d - 150))" by simp
  from round32_sign[OF x(1)] x(2) have n: "is_neg (round32 (d - 150))" by simp
  from round_to_ge_m150[OF x(3,2)] have "- 150 \<le> rat_of (round32 (d - 150))"
    by (auto simp: round32_def round_ieee_def Let_def signed_zero_def signed_inf_def)
  with f n show ?thesis using assms(2) by (simp add: glsl_sub_Fin)
qed

lemma div_radius_unit:
  assumes "is_finite u" and "is_neg u" and "- 150 \<le> rat_of u"
  shows "is_finite (glsl_div u (Fin (- 150))) \<and> \<not> is_neg (glsl_div u (Fin (- 150)))
    \<and> rat_of (glsl_div u (Fin (- 150))) \<le> 1"
proof (cases "is_zero u")
  case True
  with assms(1,2) show ?thesis by (cases u) (simp_all add: glsl_div_def signed_zero_def)
next
  case False
  with assms(1) obtain r where u: "u = Fin r" and r: "r \<noteq> 0" by (cases u) auto
  from assms(2,3) have r': "r < 0" "- 150 \<le> r" by (simp_all add: u)
  have d: "glsl_div u (Fin (- 150)) = round32 (r / (- 150))" using r by (simp add: u glsl_div_Fin)
  show ?thesis
  proof (cases "r = - 150")
    case True
    then show ?thesis by (simp add: d)
  next
    case False
    with r' have y: "r / (- 150) \<noteq> 0" "\<not> r / (- 150) < 0" "\<bar>r / (- 150)\<bar> < pow2 0"
      by (auto simp: pow2_def divide_less_eq)
    from round32_small[OF y(1,3)] have "is_finite (round32 (r / (- 150)))"
      "\<bar>rat_of (round32 (r / (- 150)))\<bar> \<le> 1" by (simp_all add: pow2_def)
    moreover from round32_sign[OF y(1)] y(2) have "\<not> is_neg (round32 (r / (- 150)))" by simp
    ultimately show ?thesis by (simp add: d)
  qed
qed

lemma clamp_unit:
  assumes "is_finite q" and "\<not> is_neg q" and "rat_of q \<le> 1"
  shows "glsl_clamp q (Fin 0) (Fin 1) = q"
  using assms by (cases q) (simp_all add: glsl_clamp_def glsl_max_def glsl_min_def)

lemma smoothstep_between:
  assumes "0 \<le> d" and "d \<le> 150"
  shows "smoothstep (Fin 150) (Fin 0) (Fin d) =
     (let u = glsl_div (glsl_sub (Fin d) (Fin 150)) (Fin (- 150))
      in glsl_mul (glsl_mul u u) (glsl_sub (Fin 3) (glsl_mul (Fin 2) u)))"
proof -
  have e: "glsl_sub (Fin 0) (Fin 150) = Fin (- 150)" by (simp add: glsl_sub_Fin)
  have "glsl_clamp (glsl_div (glsl_sub (Fin d) (Fin 150)) (Fin (- 150))) (Fin 0) (Fin 1)
      = glsl_div (glsl_sub (Fin d) (Fin 150)) (Fin (- 150))"
  proof (cases "d = 150")
    case True
    then show ?thesis
      by (simp add: glsl_sub_Fin glsl_div_Fin signed_zero_def glsl_clamp_def glsl_max_def
          glsl_min_def)
  next
    case False
    with assms have "d < 150" by simp
    from sub_radius_near[OF assms(1) this]
    have "is_finite (glsl_sub (Fin d) (Fin 150))" "is_neg (glsl_sub (Fin d) (Fin 150))"
      "- 150 \<le> rat_of (glsl_sub (Fin d) (Fin 150))" by auto
    from div_radius_unit[OF this]
    have "is_finite (glsl_div (glsl_sub (Fin d) (Fin 150)) (Fin (- 150)))"
      "\<not> is_neg (glsl_div (glsl_sub (Fin d) (Fin 150)) (Fin (- 150)))"
      "rat_of (glsl_div (glsl_sub (Fin d) (Fin 150)) (Fin (- 150))) \<le> 1" by auto
    then show ?thesis by (rule clamp_unit)
  qed
  then show ?thesis by (simp only: smoothstep_def Let_def e)
qed

text \<open>
  C3. For every graphics processor, point \<open>P\<close>, pointer position \<open>M\<close> and time \<open>t\<close> such that
  the length the shader computes for \<open>P - M\<close> is not a zero, the shader's \<open>displaced\<close> is
  \<open>P + dir * 60 * falloff * decay\<close> in binary32 arithmetic, with \<open>d = P - M\<close>, \<open>dist\<close> the
  computed length of \<open>d\<close>, \<open>dir = d / dist\<close>, \<open>falloff = smoothstep(150, 0, dist)\<close> and
  \<open>decay = exp(-3 * falloff * t) * sin(5t) * 0.5 + 1\<close>. The falloff is 1 at distance 0, the
  positive zero from a computed distance of 150 on, and between them the cubic
  \<open>u * u * (3 - 2 * u)\<close> of \<open>u = (dist - 150) / (0 - 150)\<close>, which the clamp leaves unchanged.
  The result is a function of the graphics processor, \<open>P\<close>, \<open>M\<close> and \<open>t\<close> alone.
\<close>

theorem displaced_formula:
  fixes G :: gpu and px py mx my t :: jsnum
  defines "dx \<equiv> glsl_sub px mx" and "dy \<equiv> glsl_sub py my"
  defines "len \<equiv> gpu_length G (dx, dy)"
  defines "falloff \<equiv> smoothstep (Fin 150) (Fin 0) len"
  defines "decay \<equiv> glsl_add (glsl_mul (glsl_mul
      (gpu_exp G (glsl_mul (glsl_mul (Fin (- 3)) falloff) t))
      (gpu_sin G (glsl_mul t (Fin 5)))) (Fin (1 / 2))) (Fin 1)"
  defines "u \<equiv> glsl_div (glsl_sub len (Fin 150)) (Fin (- 150))"
  assumes "\<not> is_zero len"
  shows "displaced G (mx, my) t (px, py) =
      Some (glsl_add px (glsl_mul (glsl_mul (glsl_mul (glsl_div dx len) (Fin 60)) falloff) decay),
            glsl_add py (glsl_mul (glsl_mul (glsl_mul (glsl_div dy len) (Fin 60)) falloff) decay))
    \<and> smoothstep (Fin 150) (Fin 0) (Fin 0) = Fin 1
    \<and> (\<not> is_nan len \<and> \<not> js_lt len (Fin 150) \<longrightarrow> falloff = Fin 0)
    \<and> (is_finite len \<and> 0 \<le> rat_of len \<and> rat_of len \<le> 150 \<longrightarrow>
         falloff = glsl_mul (glsl_mul u u) (glsl_sub (Fin 3) (glsl_mul (Fin 2) u)))"
proof -
  have v: "vec2_sub (px, py) (mx, my) = (dx, dy)" by (simp add: vec2_sub_def dx_def dy_def)
  have n: "glsl_normalize G (dx, dy) = Some (glsl_div dx len, glsl_div dy len)"
    using assms(7) by (simp add: glsl_normalize_def Let_def len_def)
  have "displaced G (mx, my) t (px, py) =
      Some (glsl_add px (glsl_mul (glsl_mul (glsl_mul (glsl_div dx len) (Fin 60)) falloff) decay),
            glsl_add py (glsl_mul (glsl_mul (glsl_mul (glsl_div dy len) (Fin 60)) falloff) decay))"
    by (simp add: displaced_def Let_def v n vec2_add_def vec2_scale_def
        flip: len_def falloff_def decay_def)
  moreover have "\<not> is_nan len \<and> \<not> js_lt len (Fin 150) \<longrightarrow> falloff = Fin 0"
    by (simp add: falloff_def smoothstep_far)
  moreover have "is_finite len \<and> 0 \<le> rat_of len \<and> rat_of len \<le> 150 \<longrightarrow>
      falloff = glsl_mul (glsl_mul u u) (glsl_sub (Fin 3) (glsl_mul (Fin 2) u))"
  proof
    assume a: "is_finite len \<and> 0 \<le> rat_of len \<and> rat_of len \<le> 150"
    show "falloff = glsl_mul (glsl_mul u u) (glsl_sub (Fin 3) (glsl_mul (Fin 2) u))"
    proof (cases len)
      case (Fin d)
      with a have "0 \<le> d" "d \<le> 150" by simp_all
      from smoothstep_between[OF this] show ?thesis
        by (simp only: falloff_def u_def Fin Let_def)
    next
      case NegZero
      with assms(7) show ?thesis by simp
    qed (use a in simp_all)
  qed
  ultimately show ?thesis by (simp add: smoothstep_at_0)
qed

text \<open>The point (3, 4) with the pointer at the origin at time 1: the computed distance is
  5, the direction (0.6, 0.8) rounded, the falloff \<open>8361267 / 2^23\<close>, and the decay factor is
  built from \<open>exp\<close> and \<open>sin\<close> at \<open>-3 * falloff\<close> rounded and at 5. The point (120, 160) lies
  at the computed distance 200, where the falloff is zero.\<close>

lemma near_sqrt: "glsl_sqrt (Fin 25) = Fin 5"
  by (rule glsl_sqrt_near[where e = 2 and k = 439804651110400 and s = 20971520])
    (simp_all add: pow2_def)

lemma near_u: "glsl_sub (Fin 5) (Fin 150) = Fin (- 145)"
proof -
  have "round32 (5 - 150) = Fin (- 145)"
    by (rule round32_near[where e = 7 and n = "- 9502720"]) (simp_all add: pow2_def)
  then show ?thesis by (simp add: glsl_sub_Fin)
qed

lemma near_q: "glsl_div (Fin (- 145)) (Fin (- 150)) = Fin (16217975 / 16777216)"
proof -
  have "round32 ((- 145) / (- 150)) = Fin (16217975 / 16777216)"
    by (rule round32_near[where e = "- 1" and n = 16217975]) (simp_all add: pow2_def)
  then show ?thesis by (simp add: glsl_div_Fin)
qed

lemma near_tt:
  "glsl_mul (Fin (16217975 / 16777216)) (Fin (16217975 / 16777216))
     = Fin (15677375 / 16777216)"
proof -
  have "round32 ((16217975 / 16777216) * (16217975 / 16777216)) = Fin (15677375 / 16777216)"
    by (rule round32_near[where e = "- 1" and n = 15677375]) (simp_all add: pow2_def)
  then show ?thesis by (simp add: glsl_mul_Fin)
qed

lemma near_t2: "glsl_mul (Fin 2) (Fin (16217975 / 16777216)) = Fin (16217975 / 8388608)"
proof -
  have "round32 (2 * (16217975 / 16777216)) = Fin (16217975 / 8388608)"
    by (rule round32_near[where e = 0 and n = 16217975]) (simp_all add: pow2_def)
  then show ?thesis by (simp add: glsl_mul_Fin)
qed

lemma near_m: "glsl_sub (Fin 3) (Fin (16217975 / 8388608)) = Fin (8947849 / 8388608)"
proof -
  have "round32 (3 - (16217975 / 8388608)) = Fin (8947849 / 8388608)"
    by (rule round32_near[where e = 0 and n = 8947849]) (simp_all add: pow2_def)
  then show ?thesis by (simp add: glsl_sub_Fin)
qed

lemma near_falloff_mul:
  "glsl_mul (Fin (15677375 / 16777216)) (Fin (8947849 / 8388608))
     = Fin (8361267 / 8388608)"
proof -
  have "round32 ((15677375 / 16777216) * (8947849 / 8388608)) = Fin (8361267 / 8388608)"
    by (rule round32_near[where e = "- 1" and n = 16722534]) (simp_all add: pow2_def)
  then show ?thesis by (simp add: glsl_mul_Fin)
qed

lemma near_dirx: "glsl_div (Fin 3) (Fin 5) = Fin (5033165 / 8388608)"
proof -
  have "round32 (3 / 5) = Fin (5033165 / 8388608)"
    by (rule round32_near[where e = "- 1" and n = 10066330]) (simp_all add: pow2_def)
  then show ?thesis by (simp add: glsl_div_Fin)
qed

lemma near_diry: "glsl_div (Fin 4) (Fin 5) = Fin (13421773 / 16777216)"
proof -
  have "round32 (4 / 5) = Fin (13421773 / 16777216)"
    by (rule round32_near[where e = "- 1" and n = 13421773]) (simp_all add: pow2_def)
  then show ?thesis by (simp add: glsl_div_Fin)
qed

lemma near_ax: "glsl_mul (Fin (5033165 / 8388608)) (Fin 60) = Fin 36"
proof -
  have "round32 ((5033165 / 8388608) * 60) = Fin 36"
    by (rule round32_near[where e = 5 and n = 9437184]) (simp_all add: pow2_def)
  then show ?thesis by (simp add: glsl_mul_Fin)
qed

lemma near_ay: "glsl_mul (Fin (13421773 / 16777216)) (Fin 60) = Fin 48"
proof -
  have "round32 ((13421773 / 16777216) * 60) = Fin 48"
    by (rule round32_near[where e = 5 and n = 12582912]) (simp_all add: pow2_def)
  then show ?thesis by (simp add: glsl_mul_Fin)
qed

lemma near_bx: "glsl_mul (Fin 36) (Fin (8361267 / 8388608)) = Fin (9406425 / 262144)"
proof -
  have "round32 (36 * (8361267 / 8388608)) = Fin (9406425 / 262144)"
    by (rule round32_near[where e = 5 and n = 9406425]) (simp_all add: pow2_def)
  then show ?thesis by (simp add: glsl_mul_Fin)
qed

lemma near_by: "glsl_mul (Fin 48) (Fin (8361267 / 8388608)) = Fin (3135475 / 65536)"
proof -
  have "round32 (48 * (8361267 / 8388608)) = Fin (3135475 / 65536)"
    by (rule round32_tie[where e = 5 and f = 12541900]) (simp_all add: pow2_def)
  then show ?thesis by (simp add: glsl_mul_Fin)
qed

lemma near_c: "glsl_mul (Fin (- 3)) (Fin (8361267 / 8388608)) = Fin (- 3135475 / 1048576)"
proof -
  have "round32 ((- 3) * (8361267 / 8388608)) = Fin (- 3135475 / 1048576)"
    by (rule round32_tie[where e = 1 and f = "- 12541901"]) (simp_all add: pow2_def)
  then show ?thesis by (simp add: glsl_mul_Fin)
qed

lemma near_c1: "glsl_mul (Fin (- 3135475 / 1048576)) (Fin 1) = Fin (- 3135475 / 1048576)"
proof -
  have "round32 ((- 3135475 / 1048576) * 1) = Fin (- 3135475 / 1048576)"
    by (rule round32_near[where e = 1 and n = "- 12541900"]) (simp_all add: pow2_def)
  then show ?thesis by (simp add: glsl_mul_Fin)
qed

lemma wide_sqrt: "glsl_sqrt (Fin 40000) = Fin 200"
  by (rule glsl_sqrt_near[where e = 7 and k = 687194767360000 and s = 26214400])
    (simp_all add: pow2_def)

lemma wide_dirx: "glsl_div (Fin 120) (Fin 200) = Fin (5033165 / 8388608)"
proof -
  have "round32 (120 / 200) = Fin (5033165 / 8388608)"
    by (rule round32_near[where e = "- 1" and n = 10066330]) (simp_all add: pow2_def)
  then show ?thesis by (simp add: glsl_div_Fin)
qed

lemma wide_diry: "glsl_div (Fin 160) (Fin 200) = Fin (13421773 / 16777216)"
proof -
  have "round32 (160 / 200) = Fin (13421773 / 16777216)"
    by (rule round32_near[where e = "- 1" and n = 13421773]) (simp_all add: pow2_def)
  then show ?thesis by (simp add: glsl_div_Fin)
qed

lemma near_length: "glsl_length (Fin 3, Fin 4) = Fin 5"
proof -
  have "glsl_add (glsl_mul (Fin 3) (Fin 3)) (glsl_mul (Fin 4) (Fin 4)) = Fin 25"
    by (simp add: glsl_mul_Fin glsl_add_Fin)
  then show ?thesis by (simp only: glsl_length_def fst_conv snd_conv near_sqrt)
qed

lemma near_falloff: "smoothstep (Fin 150) (Fin 0) (Fin 5) = Fin (8361267 / 8388608)"
proof -
  have e: "glsl_sub (Fin 0) (Fin 150) = Fin (- 150)" by (simp add: glsl_sub_Fin)
  have c: "glsl_clamp (Fin (16217975 / 16777216)) (Fin 0) (Fin 1) = Fin (16217975 / 16777216)"
    by (simp add: glsl_clamp_def glsl_max_def glsl_min_def)
  show ?thesis
    by (simp only: smoothstep_def Let_def e near_u near_q c near_tt near_t2 near_m
        near_falloff_mul)
qed

lemma wide_length: "glsl_length (Fin 120, Fin 160) = Fin 200"
proof -
  have "glsl_add (glsl_mul (Fin 120) (Fin 120)) (glsl_mul (Fin 160) (Fin 160)) = Fin 40000"
    by (simp add: glsl_mul_Fin glsl_add_Fin)
  then show ?thesis by (simp only: glsl_length_def fst_conv snd_conv wide_sqrt)
qed

theorem displaced_formula_witness:
  "displaced ieee_gpu (Fin 0, Fin 0) (Fin 1) (Fin 3, Fin 4) =
     Some (glsl_add (Fin 3) (glsl_mul (Fin (9406425 / 262144))
             (glsl_add (glsl_mul (glsl_mul (glsl_exp (Fin (- 3135475 / 1048576)))
                (glsl_sin (Fin 5))) (Fin (1 / 2))) (Fin 1))),
           glsl_add (Fin 4) (glsl_mul (Fin (3135475 / 65536))
             (glsl_add (glsl_mul (glsl_mul (glsl_exp (Fin (- 3135475 / 1048576)))
                (glsl_sin (Fin 5))) (Fin (1 / 2))) (Fin 1))))
   \<and> smoothstep (Fin 150) (Fin 0) (gpu_length ieee_gpu (Fin 3, Fin 4))
       = Fin (8361267 / 8388608)
   \<and> smoothstep (Fin 150) (Fin 0) (gpu_length ieee_gpu (Fin 120, Fin 160)) = Fin 0"
proof -
  have s: "glsl_sub (Fin 3) (Fin 0) = Fin 3" "glsl_sub (Fin 4) (Fin 0) = Fin 4"
    "glsl_sub (Fin 120) (Fin 0) = Fin 120" "glsl_sub (Fin 160) (Fin 0) = Fin 160"
    by (simp_all add: glsl_sub_Fin)
  have l: "gpu_length ieee_gpu (Fin 3, Fin 4) = Fin 5"
    "gpu_length ieee_gpu (Fin 120, Fin 160) = Fin 200"
    by (simp_all add: ieee_gpu_def near_length wide_length)
  have ef: "gpu_exp ieee_gpu = glsl_exp" "gpu_sin ieee_gpu = glsl_sin"
    by (simp_all add: ieee_gpu_def)
  have t: "glsl_mul (Fin 1) (Fin 5) = Fin 5" by (simp add: glsl_mul_Fin)
  have near: "\<not> is_zero (gpu_length ieee_gpu (glsl_sub (Fin 3) (Fin 0), glsl_sub (Fin 4) (Fin 0)))"
    by (simp only: s l) simp
  have wide: "\<not> is_zero (gpu_length ieee_gpu
      (glsl_sub (Fin 120) (Fin 0), glsl_sub (Fin 160) (Fin 0)))"
    by (simp only: s l) simp
  note a = displaced_formula[where G = ieee_gpu and px = "Fin 3" and py = "Fin 4"
      and mx = "Fin 0" and my = "Fin 0" and t = "Fin 1", OF near]
  note b = displaced_formula[where G = ieee_gpu and px = "Fin 120" and py = "Fin 160"
      and mx = "Fin 0" and my = "Fin 0" and t = "Fin 1", OF wide]
  have "displaced ieee_gpu (Fin 0, Fin 0) (Fin 1) (Fin 3, Fin 4) =
     Some (glsl_add (Fin 3) (glsl_mul (Fin (9406425 / 262144))
             (glsl_add (glsl_mul (glsl_mul (glsl_exp (Fin (- 3135475 / 1048576)))
                (glsl_sin (Fin 5))) (Fin (1 / 2))) (Fin 1))),
           glsl_add (Fin 4) (glsl_mul (Fin (3135475 / 65536))
             (glsl_add (glsl_mul (glsl_mul (glsl_exp (Fin (- 3135475 / 1048576)))
                (glsl_sin (Fin 5))) (Fin (1 / 2))) (Fin 1))))"
    using a[THEN conjunct1]
    by (simp only: s l ef t near_falloff near_dirx near_diry near_ax near_ay near_bx near_by
        near_c near_c1)
  moreover have "smoothstep (Fin 150) (Fin 0) (gpu_length ieee_gpu (Fin 3, Fin 4))
       = Fin (8361267 / 8388608)"
  proof -
    have "is_finite (Fin 5) \<and> 0 \<le> rat_of (Fin 5) \<and> rat_of (Fin 5) \<le> 150" by simp
    with a[THEN conjunct2, THEN conjunct2, THEN conjunct2]
    show ?thesis
      by (simp only: s l near_u near_q near_tt near_t2 near_m near_falloff_mul simp_thms)
  qed
  moreover have "smoothstep (Fin 150) (Fin 0) (gpu_length ieee_gpu (Fin 120, Fin 160)) = Fin 0"
  proof -
    have "\<not> is_nan (Fin 200) \<and> \<not> js_lt (Fin 200) (Fin 150)" by simp
    with b[THEN conjunct2, THEN conjunct2, THEN conjunct1]
    show ?thesis by (simp only: s l simp_thms)
  qed
  ultimately show ?thesis by (simp only: simp_thms)
qed

text \<open>A point can differ from the pointer position and still have the computed length
  zero: with \<open>P = (0, 0)\<close> and \<open>M = (2^-100, 0)\<close> the difference is \<open>(-2^-100, 0)\<close>, its
  square \<open>2^-200\<close> lies below the least binary32 value and rounds to zero, and \<open>normalize\<close>
  divides by zero.\<close>

theorem displaced_formula_counterexample:
  "is_f32 (Fin (1 / 2 ^ 100))
   \<and> vec2_sub (Fin 0, Fin 0) (Fin (1 / 2 ^ 100), Fin 0) = (Fin (- (1 / 2 ^ 100)), Fin 0)
   \<and> gpu_length ieee_gpu (Fin (- (1 / 2 ^ 100)), Fin 0) = Fin 0
   \<and> displaced ieee_gpu (Fin (1 / 2 ^ 100), Fin 0) (Fin 1) (Fin 0, Fin 0) = None"
proof -
  have "round32 (1 / 2 ^ 100) = Fin (1 / 2 ^ 100)"
    by (rule round32_near[where e = "- 100" and n = 8388608]) (simp_all add: pow2_def)
  then have m: "is_f32 (Fin (1 / 2 ^ 100))" by (simp add: is_f32_def)
  have "round32 (- (1 / 2 ^ 100)) = Fin (- (1 / 2 ^ 100))"
    by (rule round32_near[where e = "- 100" and n = "- 8388608"]) (simp_all add: pow2_def)
  then have v: "vec2_sub (Fin 0, Fin 0) (Fin (1 / 2 ^ 100), Fin 0)
      = (Fin (- (1 / 2 ^ 100)), Fin 0)"
    by (simp add: vec2_sub_def glsl_sub_Fin)
  have "round32 (- (1 / 2 ^ 100) * - (1 / 2 ^ 100))
      = signed_zero (- (1 / 2 ^ 100) * - (1 / 2 ^ 100) < (0::rat))"
    by (rule round32_underflow) (simp_all add: pow2_def)
  then have "glsl_mul (Fin (- (1 / 2 ^ 100))) (Fin (- (1 / 2 ^ 100))) = Fin 0"
    by (simp add: glsl_mul_Fin signed_zero_def)
  then have l: "gpu_length ieee_gpu (Fin (- (1 / 2 ^ 100)), Fin 0) = Fin 0"
    by (simp add: ieee_gpu_def glsl_length_def glsl_mul_Fin glsl_add_Fin signed_zero_def)
  then have "glsl_normalize ieee_gpu (Fin (- (1 / 2 ^ 100)), Fin 0) = None"
    by (simp add: glsl_normalize_def Let_def)
  then have "displaced ieee_gpu (Fin (1 / 2 ^ 100), Fin 0) (Fin 1) (Fin 0, Fin 0) = None"
    by (simp only: displaced_def Let_def v option.case)
  with m v l show ?thesis by simp
qed

text \<open>The quotient of a finite binary32 value by a computed distance of 150 or more,
  times 60, is finite.\<close>

lemma div_far_finite:
  assumes "is_finite a" and "\<bar>rat_of a\<bar> < pow2 128"
    and "\<not> is_nan d" and "\<not> js_lt d (Fin 150)"
  shows "is_finite (glsl_div a d) \<and> \<bar>rat_of (glsl_div a d)\<bar> \<le> pow2 121"
proof (cases d)
  case (Fin y)
  with assms(4) have y: "150 \<le> y" by simp
  show ?thesis
  proof (cases "is_zero a")
    case True
    with assms(1) y show ?thesis
      by (cases a) (simp_all add: Fin glsl_div_def signed_zero_def pow2_nonneg)
  next
    case False
    with assms(1) obtain x where a: "a = Fin x" and x: "x \<noteq> 0" by (cases a) auto
    have "\<bar>x / y\<bar> = \<bar>x\<bar> / y" using y by (simp add: abs_divide)
    also have "\<dots> \<le> \<bar>x\<bar> / 150" using y by (intro divide_left_mono) auto
    also have "\<dots> < pow2 128 / 150" using assms(2) by (simp add: a divide_strict_right_mono)
    also have "\<dots> < pow2 121" by (simp add: pow2_def)
    finally have b: "\<bar>x / y\<bar> < pow2 121" .
    have "x / y \<noteq> 0" using x y by auto
    from round32_small[OF this b] show ?thesis using x y by (simp add: a Fin glsl_div_Fin)
  qed
next
  case PosInf
  with assms(1) show ?thesis
    by (cases a) (simp_all add: glsl_div_def signed_zero_def pow2_nonneg)
qed (use assms in simp_all)

lemma mul_60_finite:
  assumes "is_finite a" and "\<bar>rat_of a\<bar> \<le> pow2 121"
  shows "is_finite (glsl_mul a (Fin 60))"
proof (cases "is_zero a")
  case True
  with assms(1) show ?thesis by (cases a) (simp_all add: glsl_mul_def signed_zero_def)
next
  case False
  with assms(1) obtain x where a: "a = Fin x" and x: "x \<noteq> 0" by (cases a) auto
  have "\<bar>x * 60\<bar> = \<bar>x\<bar> * 60" by (simp add: abs_mult)
  also have "\<dots> \<le> pow2 121 * 60" using assms(2) by (simp add: a)
  also have "\<dots> < pow2 127" by (simp add: pow2_def)
  finally have b: "\<bar>x * 60\<bar> < pow2 127" .
  have "x * 60 \<noteq> 0" using x by simp
  from round32_small[OF this b] show ?thesis using x by (simp add: a glsl_mul_Fin)
qed

lemma mul_zero_right: "is_finite a \<Longrightarrow> is_zero z \<Longrightarrow> is_zero (glsl_mul a z)"
  by (cases a; cases z) (simp_all add: glsl_mul_def signed_zero_def)

lemma mul_zero_left: "is_zero z \<Longrightarrow> is_finite a \<Longrightarrow> is_zero (glsl_mul z a)"
  by (cases a; cases z) (simp_all add: glsl_mul_def signed_zero_def)

lemma add_zero_eq:
  assumes "is_f32 p" and "is_finite p" and "is_zero z"
  shows "js_eq (glsl_add p z) p"
proof (cases "is_zero p")
  case True
  with assms(3) show ?thesis
    by (cases p; cases z) (simp_all add: glsl_add_def signed_zero_def)
next
  case False
  with assms(2) obtain x where p: "p = Fin x" and x: "x \<noteq> 0" by (cases p) auto
  from assms(1) x have "round32 x = Fin x" by (simp add: is_f32_def p)
  with assms(3) x show ?thesis by (cases z) (simp_all add: p glsl_add_def)
qed

text \<open>
  C4. For every graphics processor, finite binary32 point \<open>P\<close>, pointer position \<open>M\<close> with
  \<open>P - M\<close> finite, and time \<open>t\<close> with a finite decay factor: if the distance the shader
  computes for \<open>P - M\<close> is at least 150, then the falloff is 0 and the displaced position is
  \<open>P\<close> itself (equal as numbers: a zero coordinate may come back with the other sign).
\<close>

theorem displaced_far:
  fixes G :: gpu and px py mx my t :: jsnum
  defines "len \<equiv> gpu_length G (glsl_sub px mx, glsl_sub py my)"
  defines "falloff \<equiv> smoothstep (Fin 150) (Fin 0) len"
  defines "decay \<equiv> glsl_add (glsl_mul (glsl_mul
      (gpu_exp G (glsl_mul (glsl_mul (Fin (- 3)) falloff) t))
      (gpu_sin G (glsl_mul t (Fin 5)))) (Fin (1 / 2))) (Fin 1)"
  assumes "is_f32 px" and "is_finite px" and "is_f32 py" and "is_finite py"
    and "is_finite (glsl_sub px mx)" and "is_finite (glsl_sub py my)"
    and "\<not> is_nan len" and "\<not> js_lt len (Fin 150)"
    and "is_finite decay"
  shows "falloff = Fin 0
    \<and> (\<exists>qx qy. displaced G (mx, my) t (px, py) = Some (qx, qy)
          \<and> js_eq qx px \<and> js_eq qy py)"
proof -
  define dx dy where "dx = glsl_sub px mx" and "dy = glsl_sub py my"
  have f: "smoothstep (Fin 150) (Fin 0) len = Fin 0" using assms(10,11) by (rule smoothstep_far)
  have nz: "\<not> is_zero len" using assms(10,11) by (cases len) auto
  have v: "vec2_sub (px, py) (mx, my) = (dx, dy)" by (simp add: vec2_sub_def dx_def dy_def)
  have d: "gpu_length G (dx, dy) = len" by (simp add: len_def dx_def dy_def)
  have n: "glsl_normalize G (dx, dy) = Some (glsl_div dx len, glsl_div dy len)"
    using nz by (simp add: glsl_normalize_def Let_def d)
  have zero: "is_zero (glsl_mul (glsl_mul (glsl_mul (glsl_div a len) (Fin 60)) (Fin 0)) decay)"
    if "is_finite a" and "\<bar>rat_of a\<bar> < pow2 128" for a
  proof -
    from div_far_finite[OF that assms(10,11)]
    have "is_finite (glsl_div a len)" "\<bar>rat_of (glsl_div a len)\<bar> \<le> pow2 121" by auto
    then have "is_finite (glsl_mul (glsl_div a len) (Fin 60))" by (rule mul_60_finite)
    then have "is_zero (glsl_mul (glsl_mul (glsl_div a len) (Fin 60)) (Fin 0))"
      by (rule mul_zero_right) simp
    then show ?thesis using assms(12) by (rule mul_zero_left)
  qed
  have zx: "is_zero (glsl_mul (glsl_mul (glsl_mul (glsl_div dx len) (Fin 60)) (Fin 0)) decay)"
    using assms(8) rat_of_glsl_sub[of px mx] by (intro zero) (simp_all add: dx_def)
  have zy: "is_zero (glsl_mul (glsl_mul (glsl_mul (glsl_div dy len) (Fin 60)) (Fin 0)) decay)"
    using assms(9) rat_of_glsl_sub[of py my] by (intro zero) (simp_all add: dy_def)
  have "displaced G (mx, my) t (px, py) =
      Some (glsl_add px (glsl_mul (glsl_mul (glsl_mul (glsl_div dx len) (Fin 60)) (Fin 0)) decay),
            glsl_add py (glsl_mul (glsl_mul (glsl_mul (glsl_div dy len) (Fin 60)) (Fin 0)) decay))"
    by (simp add: displaced_def Let_def v n d f vec2_add_def vec2_scale_def decay_def falloff_def)
  moreover have "js_eq (glsl_add px
      (glsl_mul (glsl_mul (glsl_mul (glsl_div dx len) (Fin 60)) (Fin 0)) decay)) px"
    using assms(4,5) zx by (rule add_zero_eq)
  moreover have "js_eq (glsl_add py
      (glsl_mul (glsl_mul (glsl_mul (glsl_div dy len) (Fin 60)) (Fin 0)) decay)) py"
    using assms(6,7) zy by (rule add_zero_eq)
  ultimately show ?thesis using f by (simp add: falloff_def)
qed

text \<open>With the exponential at 1 and a sine of magnitude at most 2, the decay factor is
  finite.\<close>

lemma decay_finite:
  assumes "is_finite S" and "\<bar>rat_of S\<bar> \<le> 2"
  shows "is_finite (glsl_add (glsl_mul (glsl_mul (Fin 1) S) (Fin (1 / 2))) (Fin 1))"
proof (cases "is_zero S")
  case True
  with assms(1) show ?thesis
    by (cases S) (simp_all add: glsl_mul_def glsl_add_def signed_zero_def)
next
  case False
  with assms(1) obtain s where S: "S = Fin s" and s: "s \<noteq> 0" by (cases S) auto
  have "\<bar>s\<bar> < pow2 2" using assms(2) by (simp add: S pow2_def)
  from round32_small[OF s this]
  have a: "is_finite (round32 s)" "\<bar>rat_of (round32 s)\<bar> \<le> 4" by (simp_all add: pow2_def)
  have m1: "glsl_mul (Fin 1) S = round32 s" using s by (simp add: S glsl_mul_Fin)
  have b: "is_finite (glsl_mul (round32 s) (Fin (1 / 2)))
      \<and> \<bar>rat_of (glsl_mul (round32 s) (Fin (1 / 2)))\<bar> \<le> 4"
  proof (cases "is_zero (round32 s)")
    case True
    with a(1) show ?thesis
      by (cases "round32 s") (simp_all add: glsl_mul_def signed_zero_def)
  next
    case False
    with a(1) obtain v where v: "round32 s = Fin v" and v0: "v \<noteq> 0"
      by (cases "round32 s") auto
    have "\<bar>v * (1 / 2)\<bar> < pow2 2" using a(2) by (simp add: v pow2_def)
    moreover have "v * (1 / 2) \<noteq> 0" using v0 by simp
    ultimately have "is_finite (round32 (v * (1 / 2)))"
      "\<bar>rat_of (round32 (v * (1 / 2)))\<bar> \<le> 4"
      using round32_small[of "v * (1 / 2)" 2] by (simp_all add: pow2_def)
    then show ?thesis using v0 by (simp add: v glsl_mul_Fin)
  qed
  show ?thesis
  proof (cases "glsl_mul (round32 s) (Fin (1 / 2))")
    case (Fin w)
    with b have w: "\<bar>w\<bar> \<le> 4" by simp
    show ?thesis
    proof (cases "w + 1 = 0")
      case True
      then show ?thesis by (simp add: m1 Fin glsl_add_Fin)
    next
      case False
      have "\<bar>w + 1\<bar> < pow2 3" using w by (simp add: pow2_def)
      from round32_small[OF False this] show ?thesis using False
        by (simp add: m1 Fin glsl_add_Fin)
    qed
  next
    case NegZero
    then show ?thesis by (simp add: m1 glsl_add_def)
  qed (use b in simp_all)
qed

theorem displaced_far_witness:
  "displaced ieee_gpu (Fin 0, Fin 0) (Fin 1) (Fin 120, Fin 160) = Some (Fin 120, Fin 160)"
proof -
  have s: "glsl_sub (Fin 120) (Fin 0) = Fin 120" "glsl_sub (Fin 160) (Fin 0) = Fin 160"
    by (simp_all add: glsl_sub_Fin)
  have l: "gpu_length ieee_gpu (Fin 120, Fin 160) = Fin 200"
    by (simp add: ieee_gpu_def wide_length)
  have f: "is_f32 (Fin 120)" "is_f32 (Fin 160)" by (simp_all add: is_f32_def)
  have far: "smoothstep (Fin 150) (Fin 0) (Fin 200) = Fin 0" by (rule smoothstep_far) simp_all
  have z: "glsl_mul (glsl_mul (Fin (- 3)) (Fin 0)) (Fin 1) = NegZero"
    by (simp add: glsl_mul_def signed_zero_def)
  have t: "glsl_mul (Fin 1) (Fin 5) = Fin 5" by (simp add: glsl_mul_Fin)
  from glsl_sin_finite[of "Fin 5"]
  have "is_finite (glsl_sin (Fin 5))" "\<bar>rat_of (glsl_sin (Fin 5))\<bar> \<le> 2" by simp_all
  then have "is_finite (glsl_add (glsl_mul (glsl_mul (Fin 1) (glsl_sin (Fin 5))) (Fin (1 / 2)))
      (Fin 1))"
    by (rule decay_finite)
  then have d: "is_finite (glsl_add (glsl_mul (glsl_mul
      (gpu_exp ieee_gpu (glsl_mul (glsl_mul (Fin (- 3))
         (smoothstep (Fin 150) (Fin 0)
           (gpu_length ieee_gpu (glsl_sub (Fin 120) (Fin 0), glsl_sub (Fin 160) (Fin 0)))))
         (Fin 1)))
      (gpu_sin ieee_gpu (glsl_mul (Fin 1) (Fin 5)))) (Fin (1 / 2))) (Fin 1))"
    by (simp add: s l far z t) (simp add: ieee_gpu_def)
  have "\<exists>qx qy. displaced ieee_gpu (Fin 0, Fin 0) (Fin 1) (Fin 120, Fin 160) = Some (qx, qy)
      \<and> js_eq qx (Fin 120) \<and> js_eq qy (Fin 160)"
    using displaced_far[where G = ieee_gpu and px = "Fin 120" and py = "Fin 160"
        and mx = "Fin 0" and my = "Fin 0" and t = "Fin 1", OF f(1) _ f(2) _ _ _ _ _ d]
    by (simp add: l s)
  then obtain qx qy where q: "displaced ieee_gpu (Fin 0, Fin 0) (Fin 1) (Fin 120, Fin 160)
      = Some (qx, qy)" "js_eq qx (Fin 120)" "js_eq qy (Fin 160)" by blast
  from q(2) have "qx = Fin 120" by (cases qx) simp_all
  moreover from q(3) have "qy = Fin 160" by (cases qy) simp_all
  ultimately show ?thesis using q(1) by simp
qed

text \<open>The decay factor has to be finite: at an infinite time the sine is NaN, and the
  product of the zero falloff with it is NaN, not a zero.\<close>

lemma far_time_infinite:
  "displaced ieee_gpu (Fin 0, Fin 0) PosInf (Fin 120, Fin 160) = Some (NaN, NaN)"
proof -
  have v: "vec2_sub (Fin 120, Fin 160) (Fin 0, Fin 0) = (Fin 120, Fin 160)"
    by (simp add: vec2_sub_def glsl_sub_Fin)
  have l: "gpu_length ieee_gpu (Fin 120, Fin 160) = Fin 200"
    by (simp add: ieee_gpu_def wide_length)
  have nz: "is_zero (Fin 200) = False" by simp
  have n: "glsl_normalize ieee_gpu (Fin 120, Fin 160)
      = Some (Fin (5033165 / 8388608), Fin (13421773 / 16777216))"
    by (simp only: glsl_normalize_def Let_def l nz if_False fst_conv snd_conv wide_dirx
        wide_diry)
  have f: "smoothstep (Fin 150) (Fin 0) (Fin 200) = Fin 0" by (rule smoothstep_far) simp_all
  have d: "glsl_add (glsl_mul (glsl_mul
      (gpu_exp ieee_gpu (glsl_mul (glsl_mul (Fin (- 3)) (Fin 0)) PosInf))
      (gpu_sin ieee_gpu (glsl_mul PosInf (Fin 5)))) (Fin (1 / 2))) (Fin 1) = NaN"
    by (simp add: ieee_gpu_def glsl_mul_def glsl_add_def signed_zero_def signed_inf_def)
  have z: "glsl_mul (Fin 36) (Fin 0) = Fin 0" "glsl_mul (Fin 48) (Fin 0) = Fin 0"
    "glsl_mul (Fin 0) NaN = NaN" "glsl_add (Fin 120) NaN = NaN" "glsl_add (Fin 160) NaN = NaN"
    by (simp_all add: glsl_mul_def glsl_add_def signed_zero_def)
  show ?thesis
    by (simp only: displaced_def Let_def v l n option.case f d vec2_scale_def vec2_add_def
        fst_conv snd_conv near_ax near_ay z)
qed

text \<open>
  The distance that counts is the computed one. On a processor that rounds every operation
  of \<open>length\<close>, the vertex of column 34 and row 23 of the grid of an 800 by 600 canvas, with
  the pointer at \<open>(-1621243 / 32768, 1868909 / 16384)\<close>, lies at an exact distance above 150
  from the pointer, but the sum of the squares rounds to \<open>22500 - 2^-8\<close> and its square root
  to \<open>150 - 2^-16\<close>: the falloff is about \<open>3.1 * 10^-14\<close>, and at time 0 the shader moves the
  point from \<open>x = -13 / 2^50\<close> to \<open>x = 11120319 / 2^64\<close>.
\<close>

lemma far_dx:
  "glsl_sub (Fin (- 13 / 1125899906842624)) (Fin (- 1621243 / 32768))
     = Fin (1621243 / 32768)"
proof -
  have "round32 ((- 13 / 1125899906842624) - (- 1621243 / 32768)) = Fin (1621243 / 32768)"
    by (rule round32_near[where e = 5 and n = 12969944]) (simp_all add: pow2_def)
  then show ?thesis by (simp add: glsl_sub_Fin)
qed

lemma far_dy:
  "glsl_sub (Fin (- 3609229 / 131072)) (Fin (1868909 / 16384))
     = Fin (- 4640125 / 32768)"
proof -
  have "round32 ((- 3609229 / 131072) - (1868909 / 16384)) = Fin (- 4640125 / 32768)"
    by (rule round32_tie[where e = 7 and f = "- 9280251"]) (simp_all add: pow2_def)
  then show ?thesis by (simp add: glsl_sub_Fin)
qed

lemma far_xx: "glsl_mul (Fin (1621243 / 32768)) (Fin (1621243 / 32768)) = Fin (2506665 / 1024)"
proof -
  have "round32 ((1621243 / 32768) * (1621243 / 32768)) = Fin (2506665 / 1024)"
    by (rule round32_near[where e = 11 and n = 10026660]) (simp_all add: pow2_def)
  then show ?thesis by (simp add: glsl_mul_Fin)
qed

lemma far_yy: "glsl_mul (Fin (- 4640125 / 32768)) (Fin (- 4640125 / 32768)) = Fin (5133333 / 256)"
proof -
  have "round32 ((- 4640125 / 32768) * (- 4640125 / 32768)) = Fin (5133333 / 256)"
    by (rule round32_near[where e = 14 and n = 10266666]) (simp_all add: pow2_def)
  then show ?thesis by (simp add: glsl_mul_Fin)
qed

lemma far_sum: "glsl_add (Fin (2506665 / 1024)) (Fin (5133333 / 256)) = Fin (5759999 / 256)"
proof -
  have "round32 ((2506665 / 1024) + (5133333 / 256)) = Fin (5759999 / 256)"
    by (rule round32_tie[where e = 14 and f = 11519998]) (simp_all add: pow2_def)
  then show ?thesis by (simp add: glsl_add_Fin)
qed

lemma far_sqrt: "glsl_sqrt (Fin (5759999 / 256)) = Fin (9830399 / 65536)"
  by (rule glsl_sqrt_near[where e = 7 and k = 386546989531136 and s = 19660798])
    (simp_all add: pow2_def)

lemma far_u: "glsl_sub (Fin (9830399 / 65536)) (Fin 150) = Fin (- 1 / 65536)"
proof -
  have "round32 ((9830399 / 65536) - 150) = Fin (- 1 / 65536)"
    by (rule round32_near[where e = "- 16" and n = "- 8388608"]) (simp_all add: pow2_def)
  then show ?thesis by (simp add: glsl_sub_Fin)
qed

lemma far_q: "glsl_div (Fin (- 1 / 65536)) (Fin (- 150)) = Fin (7158279 / 70368744177664)"
proof -
  have "round32 ((- 1 / 65536) / (- 150)) = Fin (7158279 / 70368744177664)"
    by (rule round32_near[where e = "- 24" and n = 14316558]) (simp_all add: pow2_def)
  then show ?thesis by (simp add: glsl_div_Fin)
qed

lemma far_tt:
  "glsl_mul (Fin (7158279 / 70368744177664)) (Fin (7158279 / 70368744177664))
     = Fin (3054199 / 295147905179352825856)"
proof -
  have "round32 ((7158279 / 70368744177664) * (7158279 / 70368744177664))
      = Fin (3054199 / 295147905179352825856)"
    by (rule round32_near[where e = "- 47" and n = 12216796]) (simp_all add: pow2_def)
  then show ?thesis by (simp add: glsl_mul_Fin)
qed

lemma far_t2: "glsl_mul (Fin 2) (Fin (7158279 / 70368744177664)) = Fin (7158279 / 35184372088832)"
proof -
  have "round32 (2 * (7158279 / 70368744177664)) = Fin (7158279 / 35184372088832)"
    by (rule round32_near[where e = "- 23" and n = 14316558]) (simp_all add: pow2_def)
  then show ?thesis by (simp add: glsl_mul_Fin)
qed

lemma far_m: "glsl_sub (Fin 3) (Fin (7158279 / 35184372088832)) = Fin (12582911 / 4194304)"
proof -
  have "round32 (3 - (7158279 / 35184372088832)) = Fin (12582911 / 4194304)"
    by (rule round32_near[where e = 1 and n = 12582911]) (simp_all add: pow2_def)
  then show ?thesis by (simp add: glsl_sub_Fin)
qed

lemma far_falloff_mul:
  "glsl_mul (Fin (3054199 / 295147905179352825856)) (Fin (12582911 / 4194304))
     = Fin (2290649 / 73786976294838206464)"
proof -
  have "round32 ((3054199 / 295147905179352825856) * (12582911 / 4194304))
      = Fin (2290649 / 73786976294838206464)"
    by (rule round32_near[where e = "- 45" and n = 9162596]) (simp_all add: pow2_def)
  then show ?thesis by (simp add: glsl_mul_Fin)
qed

lemma far_dirx:
  "glsl_div (Fin (1621243 / 32768)) (Fin (9830399 / 65536))
     = Fin (11067687 / 33554432)"
proof -
  have "round32 ((1621243 / 32768) / (9830399 / 65536)) = Fin (11067687 / 33554432)"
    by (rule round32_near[where e = "- 2" and n = 11067687]) (simp_all add: pow2_def)
  then show ?thesis by (simp add: glsl_div_Fin)
qed

lemma far_diry:
  "glsl_div (Fin (- 4640125 / 32768)) (Fin (9830399 / 65536))
     = Fin (- 15838295 / 16777216)"
proof -
  have "round32 ((- 4640125 / 32768) / (9830399 / 65536)) = Fin (- 15838295 / 16777216)"
    by (rule round32_near[where e = "- 1" and n = "- 15838295"]) (simp_all add: pow2_def)
  then show ?thesis by (simp add: glsl_div_Fin)
qed

lemma far_ax: "glsl_mul (Fin (11067687 / 33554432)) (Fin 60) = Fin (10375957 / 524288)"
proof -
  have "round32 ((11067687 / 33554432) * 60) = Fin (10375957 / 524288)"
    by (rule round32_near[where e = 4 and n = 10375957]) (simp_all add: pow2_def)
  then show ?thesis by (simp add: glsl_mul_Fin)
qed

lemma far_ay: "glsl_mul (Fin (- 15838295 / 16777216)) (Fin 60) = Fin (- 7424201 / 131072)"
proof -
  have "round32 ((- 15838295 / 16777216) * 60) = Fin (- 7424201 / 131072)"
    by (rule round32_near[where e = 5 and n = "- 14848402"]) (simp_all add: pow2_def)
  then show ?thesis by (simp add: glsl_mul_Fin)
qed

lemma far_bx:
  "glsl_mul (Fin (10375957 / 524288)) (Fin (2290649 / 73786976294838206464))
     = Fin (11333311 / 18446744073709551616)"
proof -
  have "round32 ((10375957 / 524288) * (2290649 / 73786976294838206464))
      = Fin (11333311 / 18446744073709551616)"
    by (rule round32_near[where e = "- 41" and n = 11333311]) (simp_all add: pow2_def)
  then show ?thesis by (simp add: glsl_mul_Fin)
qed

lemma far_by:
  "glsl_mul (Fin (- 7424201 / 131072)) (Fin (2290649 / 73786976294838206464))
     = Fin (- 16218413 / 9223372036854775808)"
proof -
  have "round32 ((- 7424201 / 131072) * (2290649 / 73786976294838206464))
      = Fin (- 16218413 / 9223372036854775808)"
    by (rule round32_near[where e = "- 40" and n = "- 16218413"]) (simp_all add: pow2_def)
  then show ?thesis by (simp add: glsl_mul_Fin)
qed

lemma far_c:
  "glsl_mul (Fin (- 3)) (Fin (2290649 / 73786976294838206464))
     = Fin (- 6871947 / 73786976294838206464)"
proof -
  have "round32 ((- 3) * (2290649 / 73786976294838206464))
      = Fin (- 6871947 / 73786976294838206464)"
    by (rule round32_near[where e = "- 44" and n = "- 13743894"]) (simp_all add: pow2_def)
  then show ?thesis by (simp add: glsl_mul_Fin)
qed

lemma far_cx:
  "glsl_mul (Fin (11333311 / 18446744073709551616)) (Fin 1)
     = Fin (11333311 / 18446744073709551616)"
proof -
  have "round32 ((11333311 / 18446744073709551616) * 1) = Fin (11333311 / 18446744073709551616)"
    by (rule round32_near[where e = "- 41" and n = 11333311]) (simp_all add: pow2_def)
  then show ?thesis by (simp add: glsl_mul_Fin)
qed

lemma far_cy:
  "glsl_mul (Fin (- 16218413 / 9223372036854775808)) (Fin 1)
     = Fin (- 16218413 / 9223372036854775808)"
proof -
  have "round32 ((- 16218413 / 9223372036854775808) * 1) = Fin (- 16218413 / 9223372036854775808)"
    by (rule round32_near[where e = "- 40" and n = "- 16218413"]) (simp_all add: pow2_def)
  then show ?thesis by (simp add: glsl_mul_Fin)
qed

lemma far_X:
  "glsl_add (Fin (- 13 / 1125899906842624)) (Fin (11333311 / 18446744073709551616))
     = Fin (11120319 / 18446744073709551616)"
proof -
  have "round32 ((- 13 / 1125899906842624) + (11333311 / 18446744073709551616))
      = Fin (11120319 / 18446744073709551616)"
    by (rule round32_near[where e = "- 41" and n = 11120319]) (simp_all add: pow2_def)
  then show ?thesis by (simp add: glsl_add_Fin)
qed

lemma far_Y:
  "glsl_add (Fin (- 3609229 / 131072)) (Fin (- 16218413 / 9223372036854775808))
     = Fin (- 3609229 / 131072)"
proof -
  have "round32 ((- 3609229 / 131072) + (- 16218413 / 9223372036854775808))
      = Fin (- 3609229 / 131072)"
    by (rule round32_near[where e = 4 and n = "- 14436916"]) (simp_all add: pow2_def)
  then show ?thesis by (simp add: glsl_add_Fin)
qed

lemma far_length:
  "glsl_length (Fin (1621243 / 32768), Fin (- 4640125 / 32768)) = Fin (9830399 / 65536)"
  by (simp only: glsl_length_def fst_conv snd_conv far_xx far_yy far_sum far_sqrt)

lemma far_falloff:
  "smoothstep (Fin 150) (Fin 0) (Fin (9830399 / 65536)) = Fin (2290649 / 73786976294838206464)"
proof -
  have e: "glsl_sub (Fin 0) (Fin 150) = Fin (- 150)" by (simp add: glsl_sub_Fin)
  have c: "glsl_clamp (Fin (7158279 / 70368744177664)) (Fin 0) (Fin 1)
      = Fin (7158279 / 70368744177664)"
    by (simp add: glsl_clamp_def glsl_max_def glsl_min_def)
  show ?thesis
    by (simp only: smoothstep_def Let_def e far_u far_q c far_tt far_t2 far_m far_falloff_mul)
qed

lemma far_decay:
  "glsl_add (glsl_mul (glsl_mul
      (glsl_exp (glsl_mul (glsl_mul (Fin (- 3)) (Fin (2290649 / 73786976294838206464))) (Fin 0)))
      (glsl_sin (glsl_mul (Fin 0) (Fin 5)))) (Fin (1 / 2))) (Fin 1) = Fin 1"
proof -
  have a: "glsl_mul (Fin (- 6871947 / 73786976294838206464)) (Fin 0) = NegZero"
    by (simp add: glsl_mul_Fin signed_zero_def)
  have b: "glsl_mul (Fin 0) (Fin 5) = Fin 0" by (simp add: glsl_mul_Fin signed_zero_def)
  have c: "glsl_mul (Fin 1) (Fin 0) = Fin 0" by (simp add: glsl_mul_Fin signed_zero_def)
  have d: "glsl_mul (Fin 0) (Fin (1 / 2)) = Fin 0" by (simp add: glsl_mul_Fin signed_zero_def)
  have e: "glsl_add (Fin 0) (Fin 1) = Fin 1" by (simp add: glsl_add_Fin)
  show ?thesis by (simp only: far_c a glsl_exp.simps b glsl_sin_zero c d e)
qed

theorem displaced_far_counterexample:
  "(150 :: rat) * 150 \<le>
       (- 13 / 1125899906842624 - (- 1621243 / 32768)) * (- 13 / 1125899906842624 - (- 1621243 / 32768))
     + (- 3609229 / 131072 - 1868909 / 16384) * (- 3609229 / 131072 - 1868909 / 16384)
   \<and> gpu_length ieee_gpu (vec2_sub (Fin (- 13 / 1125899906842624), Fin (- 3609229 / 131072))
        (Fin (- 1621243 / 32768), Fin (1868909 / 16384))) = Fin (9830399 / 65536)
   \<and> displaced ieee_gpu (Fin (- 1621243 / 32768), Fin (1868909 / 16384)) (Fin 0)
        (Fin (- 13 / 1125899906842624), Fin (- 3609229 / 131072))
      = Some (Fin (11120319 / 18446744073709551616), Fin (- 3609229 / 131072))"
proof -
  have nz: "is_zero (Fin (9830399 / 65536)) = False" by simp
  have v: "vec2_sub (Fin (- 13 / 1125899906842624), Fin (- 3609229 / 131072))
      (Fin (- 1621243 / 32768), Fin (1868909 / 16384))
      = (Fin (1621243 / 32768), Fin (- 4640125 / 32768))"
    by (simp only: vec2_sub_def fst_conv snd_conv far_dx far_dy)
  have l: "gpu_length ieee_gpu (Fin (1621243 / 32768), Fin (- 4640125 / 32768))
      = Fin (9830399 / 65536)"
    by (simp only: ieee_gpu_def gpu.select_convs far_length)
  have n: "glsl_normalize ieee_gpu (Fin (1621243 / 32768), Fin (- 4640125 / 32768))
      = Some (Fin (11067687 / 33554432), Fin (- 15838295 / 16777216))"
    by (simp only: glsl_normalize_def Let_def l nz if_False fst_conv snd_conv far_dirx far_diry)
  have ef: "gpu_exp ieee_gpu = glsl_exp" "gpu_sin ieee_gpu = glsl_sin"
    by (simp_all add: ieee_gpu_def)
  have "displaced ieee_gpu (Fin (- 1621243 / 32768), Fin (1868909 / 16384)) (Fin 0)
        (Fin (- 13 / 1125899906842624), Fin (- 3609229 / 131072))
      = Some (Fin (11120319 / 18446744073709551616), Fin (- 3609229 / 131072))"
    by (simp only: displaced_def Let_def v l n option.case far_falloff ef far_decay
        vec2_scale_def vec2_add_def fst_conv snd_conv far_ax far_ay far_bx far_by far_cx far_cy
        far_X far_Y)
  moreover have "(150 :: rat) * 150 \<le>
       (- 13 / 1125899906842624 - (- 1621243 / 32768)) * (- 13 / 1125899906842624 - (- 1621243 / 32768))
     + (- 3609229 / 131072 - 1868909 / 16384) * (- 3609229 / 131072 - 1868909 / 16384)"
    by simp
  ultimately show ?thesis by (simp only: v l simp_thms)
qed

lemma vertex_x_mul:
  "js_mul (Fin 34) (Fin (6526955981696371 / 562949953421312))
     = Fin (3467445365276197 / 8796093022208)"
proof -
  have "round64 (34 * (6526955981696371 / 562949953421312))
      = Fin (3467445365276197 / 8796093022208)"
    by (rule round64_near[where e = 8 and n = 6934890730552394]) (simp_all add: pow2_def)
  then show ?thesis by (simp add: js_mul_Fin)
qed

lemma vertex_x_sub:
  "js_sub (Fin (3467445365276197 / 8796093022208)) (Fin 400)
     = Fin (- 50991843607003 / 8796093022208)"
proof -
  have "round64 ((3467445365276197 / 8796093022208) - 400)
      = Fin (- 50991843607003 / 8796093022208)"
    by (rule round64_near[where e = 2 and n = "- 6526955981696384"]) (simp_all add: pow2_def)
  then show ?thesis by (simp add: js_sub_Fin)
qed

lemma vertex_half:
  "js_div (Fin (6526955981696371 / 562949953421312)) (Fin 2)
     = Fin (6526955981696371 / 1125899906842624)"
proof -
  have "round64 ((6526955981696371 / 562949953421312) / 2)
      = Fin (6526955981696371 / 1125899906842624)"
    by (rule round64_near[where e = 2 and n = 6526955981696371]) (simp_all add: pow2_def)
  then show ?thesis by (simp add: js_div_Fin)
qed

lemma vertex_x_add:
  "js_add (Fin (- 50991843607003 / 8796093022208)) (Fin (6526955981696371 / 1125899906842624))
     = Fin (- 13 / 1125899906842624)"
proof -
  have "round64 ((- 50991843607003 / 8796093022208) + (6526955981696371 / 1125899906842624))
      = Fin (- 13 / 1125899906842624)"
    by (rule round64_near[where e = "- 47" and n = "- 7318349394477056"]) (simp_all add: pow2_def)
  then show ?thesis by (simp add: js_add_Fin)
qed

lemma vertex_y_mul:
  "js_mul (Fin 23) (Fin (6526955981696371 / 562949953421312))
     = Fin (4691249611844267 / 17592186044416)"
proof -
  have "round64 (23 * (6526955981696371 / 562949953421312))
      = Fin (4691249611844267 / 17592186044416)"
    by (rule round64_near[where e = 8 and n = 4691249611844267]) (simp_all add: pow2_def)
  then show ?thesis by (simp add: js_mul_Fin)
qed

lemma vertex_y_sub:
  "js_sub (Fin (4691249611844267 / 17592186044416)) (Fin 300)
     = Fin (- 586406201480533 / 17592186044416)"
proof -
  have "round64 ((4691249611844267 / 17592186044416) - 300)
      = Fin (- 586406201480533 / 17592186044416)"
    by (rule round64_near[where e = 5 and n = "- 4691249611844264"]) (simp_all add: pow2_def)
  then show ?thesis by (simp add: js_sub_Fin)
qed

lemma vertex_y_add:
  "js_add (Fin (- 586406201480533 / 17592186044416)) (Fin (6526955981696371 / 1125899906842624))
     = Fin (- 7750760228264435 / 281474976710656)"
proof -
  have "round64 ((- 586406201480533 / 17592186044416) + (6526955981696371 / 1125899906842624))
      = Fin (- 7750760228264435 / 281474976710656)"
    by (rule round64_near[where e = 4 and n = "- 7750760228264435"]) (simp_all add: pow2_def)
  then show ?thesis by (simp add: js_add_Fin)
qed

lemma vertex_x_f32: "f32 (Fin (- 13 / 1125899906842624)) = Fin (- 13 / 1125899906842624)"
proof -
  have "round32 (- 13 / 1125899906842624) = Fin (- 13 / 1125899906842624)"
    by (rule round32_near[where e = "- 47" and n = "- 13631488"]) (simp_all add: pow2_def)
  then show ?thesis by simp
qed

lemma vertex_y_f32: "f32 (Fin (- 7750760228264435 / 281474976710656)) = Fin (- 3609229 / 131072)"
proof -
  have "round32 (- 7750760228264435 / 281474976710656) = Fin (- 3609229 / 131072)"
    by (rule round32_near[where e = 4 and n = "- 14436916"]) (simp_all add: pow2_def)
  then show ?thesis by simp
qed

lemma pointer_x: "js_sub (Fin (11485957 / 32768)) (Fin 400) = Fin (- 1621243 / 32768)"
proof -
  have "round64 ((11485957 / 32768) - 400) = Fin (- 1621243 / 32768)"
    by (rule round64_near[where e = 5 and n = "- 6963185663868928"]) (simp_all add: pow2_def)
  then show ?thesis by (simp add: js_sub_Fin)
qed

lemma pointer_y: "js_sub (Fin 300) (Fin (3046291 / 16384)) = Fin (1868909 / 16384)"
proof -
  have "round64 (300 - (3046291 / 16384)) = Fin (1868909 / 16384)"
    by (rule round64_near[where e = 6 and n = 8026903034200064]) (simp_all add: pow2_def)
  then show ?thesis by (simp add: js_sub_Fin)
qed

lemma pointer_x_f32: "f32 (Fin (- 1621243 / 32768)) = Fin (- 1621243 / 32768)"
proof -
  have "round32 (- 1621243 / 32768) = Fin (- 1621243 / 32768)"
    by (rule round32_near[where e = 5 and n = "- 12969944"]) (simp_all add: pow2_def)
  then show ?thesis by simp
qed

lemma pointer_y_f32: "f32 (Fin (1868909 / 16384)) = Fin (1868909 / 16384)"
proof -
  have "round32 (1868909 / 16384) = Fin (1868909 / 16384)"
    by (rule round32_near[where e = 6 and n = 14951272]) (simp_all add: pow2_def)
  then show ?thesis by simp
qed

text \<open>The point is the vertex of column 34 and row 23 of the grid of an 800 by 600 canvas,
  and the pointer position that of a pointer event on that canvas.\<close>

lemma far_input_reachable:
  "f32 (js_add (js_sub (js_mul (num 34) (Fin (6526955981696371 / 562949953421312)))
          (js_div (num 800) (Fin 2))) (js_div (Fin (6526955981696371 / 562949953421312)) (Fin 2)))
     = Fin (- 13 / 1125899906842624)"
  "f32 (js_add (js_sub (js_mul (num 23) (Fin (6526955981696371 / 562949953421312)))
          (js_div (num 600) (Fin 2))) (js_div (Fin (6526955981696371 / 562949953421312)) (Fin 2)))
     = Fin (- 3609229 / 131072)"
  "f32 (mouseX (updatePointerPosition (Fin (11485957 / 32768)) (Fin (3046291 / 16384))
          (st\<lparr>canvas_width := 800, canvas_height := 600\<rparr>))) = Fin (- 1621243 / 32768)"
  "f32 (mouseY (updatePointerPosition (Fin (11485957 / 32768)) (Fin (3046291 / 16384))
          (st\<lparr>canvas_width := 800, canvas_height := 600\<rparr>))) = Fin (1868909 / 16384)"
proof -
  have n: "num 34 = Fin 34" "num 23 = Fin 23" by (simp_all add: num_def)
  have h: "js_div (num 800) (Fin 2) = Fin 400" "js_div (num 600) (Fin 2) = Fin 300"
    by (simp_all add: num_def js_div_Fin)
  show "f32 (js_add (js_sub (js_mul (num 34) (Fin (6526955981696371 / 562949953421312)))
          (js_div (num 800) (Fin 2))) (js_div (Fin (6526955981696371 / 562949953421312)) (Fin 2)))
     = Fin (- 13 / 1125899906842624)"
    by (simp only: n h vertex_x_mul vertex_x_sub vertex_half vertex_x_add vertex_x_f32)
  show "f32 (js_add (js_sub (js_mul (num 23) (Fin (6526955981696371 / 562949953421312)))
          (js_div (num 600) (Fin 2))) (js_div (Fin (6526955981696371 / 562949953421312)) (Fin 2)))
     = Fin (- 3609229 / 131072)"
    by (simp only: n h vertex_y_mul vertex_y_sub vertex_half vertex_y_add vertex_y_f32)
  have m: "mouseX (updatePointerPosition (Fin (11485957 / 32768)) (Fin (3046291 / 16384))
          (st\<lparr>canvas_width := 800, canvas_height := 600\<rparr>))
        = js_sub (Fin (11485957 / 32768)) (js_div (num 800) (Fin 2))"
    "mouseY (updatePointerPosition (Fin (11485957 / 32768)) (Fin (3046291 / 16384))
          (st\<lparr>canvas_width := 800, canvas_height := 600\<rparr>))
        = js_sub (js_div (num 600) (Fin 2)) (Fin (3046291 / 16384))"
    by (simp_all add: updatePointerPosition_def Let_def)
  show "f32 (mouseX (updatePointerPosition (Fin (11485957 / 32768)) (Fin (3046291 / 16384))
          (st\<lparr>canvas_width := 800, canvas_height := 600\<rparr>))) = Fin (- 1621243 / 32768)"
    by (simp only: m h pointer_x pointer_x_f32)
  show "f32 (mouseY (updatePointerPosition (Fin (11485957 / 32768)) (Fin (3046291 / 16384))
          (st\<lparr>canvas_width := 800, canvas_height := 600\<rparr>))) = Fin (1868909 / 16384)"
    by (simp only: m h pointer_y pointer_y_f32)
qed

section \<open>Failure points\<close>

lemma resizeCanvas_fields [simp]:
  "canvas_width (resizeCanvas H st) = innerWidth H"
  "canvas_height (resizeCanvas H st) = innerHeight H"
  "gl (resizeCanvas H st) = gl st"
  "pMatrix (resizeCanvas H st) = Some \<lparr>elements = length (store st)\<rparr>"
  "console (resizeCanvas H st) = console st"
  "frames_requested (resizeCanvas H st) = frames_requested st"
  by (simp_all add: resizeCanvas_def Let_def split_beta new_Matrix3_eq makeOrthographic_def
      set_Matrix3_def)

lemma rebuildGrid_running:
  assumes "canvas_width st < 2 ^ 32" and "canvas_height st < 2 ^ 32" and "gl st = Some g"
  shows "\<exists>g'. rebuildGrid st = Some (Inr (st\<lparr>gl := Some g'\<rparr>))
     \<and> current_program g' = current_program g"
proof -
  from rebuildGrid_total[OF assms(1,2)] obtain P where
    "\<forall>st'. canvas_width st' = canvas_width st \<and> canvas_height st' = canvas_height st \<longrightarrow>
       rebuildGrid st' = Some (case gl st' of
           None \<Rightarrow> Inl (TypeError ''Cannot read properties of undefined'')
         | Some g \<Rightarrow> Inr (st'\<lparr>gl := Some (g\<lparr>positionBuffer := map f32 P,
               vertexCount := js_div (num (length P)) (Fin 2)\<rparr>)\<rparr>))" ..
  then have "rebuildGrid st = Some (Inr (st\<lparr>gl := Some (g\<lparr>positionBuffer := map f32 P,
               vertexCount := js_div (num (length P)) (Fin 2)\<rparr>)\<rparr>))"
    using assms(3) by simp
  then show ?thesis by (intro exI[of _ "g\<lparr>positionBuffer := map f32 P,
               vertexCount := js_div (num (length P)) (Fin 2)\<rparr>"]) simp
qed

lemma rebuildGrid_undefined_gl:
  assumes "canvas_width st < 2 ^ 32" and "canvas_height st < 2 ^ 32" and "gl st = None"
  shows "rebuildGrid st = Some (Inl (TypeError ''Cannot read properties of undefined''))"
proof -
  from rebuildGrid_total[OF assms(1,2)] obtain P where
    "\<forall>st'. canvas_width st' = canvas_width st \<and> canvas_height st' = canvas_height st \<longrightarrow>
       rebuildGrid st' = Some (case gl st' of
           None \<Rightarrow> Inl (TypeError ''Cannot read properties of undefined'')
         | Some g \<Rightarrow> Inr (st'\<lparr>gl := Some (g\<lparr>positionBuffer := map f32 P,
               vertexCount := js_div (num (length P)) (Fin 2)\<rparr>)\<rparr>))" ..
  then show ?thesis using assms(3) by simp
qed

lemma main_unsupported:
  "\<not> getContext_webgl2 H \<Longrightarrow> main H st = Some (Inl (Error ''WebGL2 not supported.''))"
  by (simp add: main_def getWebGL2Context_def Let_def)

lemma main_supported:
  assumes "getContext_webgl2 H" and "innerWidth H < 2 ^ 32" and "innerHeight H < 2 ^ 32"
  shows "\<exists>st'. main H st = Some (Inr st')
     \<and> console st' = console st
          @ (if COMPILE_STATUS H vertexShaderSource then []
             else [shaderInfoLog H vertexShaderSource])
          @ (if COMPILE_STATUS H fragmentShaderSource then []
             else [shaderInfoLog H fragmentShaderSource])
          @ (if LINK_STATUS H then [] else [programInfoLog H])
     \<and> frames_requested st' = Suc (frames_requested st)
     \<and> map_option current_program (gl st')
          = Some (Some (Program (Shader VERTEX_SHADER vertexShaderSource)
                 (Shader FRAGMENT_SHADER fragmentShaderSource)))
     \<and> running st'"
proof -
  let ?vs = "Shader VERTEX_SHADER vertexShaderSource"
  let ?fs = "Shader FRAGMENT_SHADER fragmentShaderSource"
  define st0 where "st0 = (resizeCanvas H st)\<lparr>gl := Some fresh_context\<rparr>"
  define st1 where "st1 = fst (createShader H st0 VERTEX_SHADER vertexShaderSource)"
  define st2 where "st2 = fst (createShader H st1 FRAGMENT_SHADER fragmentShaderSource)"
  define st3 where "st3 = fst (createProgram H st2 ?vs ?fs)"
  define st4 where "st4 = st3\<lparr>gl := map_option (\<lambda>g. g\<lparr>current_program := Some (Program ?vs ?fs)\<rparr>) (gl st3)\<rparr>"
  have m: "main H st = Option.bind (rebuildGrid st4)
                  (\<lambda>r. Some (case r of
                      Inl e \<Rightarrow> Inl e
                    | Inr st \<Rightarrow> Inr (st\<lparr>frames_requested := Suc (frames_requested st)\<rparr>)))"
    using assms(1)
    by (simp add: main_def getWebGL2Context_def Let_def split_beta createShader_def
        createProgram_def st0_def st1_def st2_def st3_def st4_def)
  have c: "console st4 = console st
          @ (if COMPILE_STATUS H vertexShaderSource then []
             else [shaderInfoLog H vertexShaderSource])
          @ (if COMPILE_STATUS H fragmentShaderSource then []
             else [shaderInfoLog H fragmentShaderSource])
          @ (if LINK_STATUS H then [] else [programInfoLog H])"
    by (simp add: st4_def st3_def st2_def st1_def st0_def createShader_def createProgram_def
        Let_def)
  have f: "frames_requested st4 = frames_requested st" "pMatrix st4 \<noteq> None"
    "canvas_width st4 = innerWidth H" "canvas_height st4 = innerHeight H"
    "gl st4 = Some (fresh_context\<lparr>current_program := Some (Program ?vs ?fs)\<rparr>)"
    by (simp_all add: st4_def st3_def st2_def st1_def st0_def createShader_def createProgram_def
        Let_def)
  from rebuildGrid_running[of st4, OF _ _ f(5)] assms(2,3) f(3,4)
  obtain g' where g': "rebuildGrid st4 = Some (Inr (st4\<lparr>gl := Some g'\<rparr>))"
    "current_program g' = Some (Program ?vs ?fs)" by auto
  show ?thesis
    by (rule exI[of _ "st4\<lparr>gl := Some g', frames_requested := Suc (frames_requested st4)\<rparr>"])
      (simp add: m g' c f running_def)
qed

lemma updateAndRender_running:
  assumes "running st"
  shows "\<exists>st'. updateAndRender now st = Inr st' \<and> running st'"
  using assms
  by (auto simp: running_def updateAndRender_def Let_def split_beta)

lemma on_resize_running:
  assumes "running st" and "innerWidth H < 2 ^ 32" and "innerHeight H < 2 ^ 32"
  shows "\<exists>st'. on_resize H st = Some (Inr st') \<and> running st'"
proof -
  from assms(1) obtain g where g: "gl (resizeCanvas H st) = Some g" by (auto simp: running_def)
  from rebuildGrid_running[of "resizeCanvas H st", OF _ _ g] assms(2,3)
  obtain g' where "rebuildGrid (resizeCanvas H st) = Some (Inr ((resizeCanvas H st)\<lparr>gl := Some g'\<rparr>))"
    by auto
  then show ?thesis by (simp add: on_resize_def running_def)
qed

lemma pointer_running:
  "running st \<Longrightarrow> running (on_mousemove x y st) \<and> running (on_touch touch st)"
  by (simp add: running_def on_mousemove_def on_touch_def updatePointerPosition_def Let_def
      split: option.split)


lemma createShader_logs:
  "createShader H st type source =
     (st\<lparr>console := console st
          @ (if COMPILE_STATUS H source then [] else [shaderInfoLog H source])\<rparr>,
      Shader type source)"
  by (simp add: createShader_def Let_def)

lemma createProgram_logs:
  "createProgram H st vs fs =
     (st\<lparr>console := console st @ (if LINK_STATUS H then [] else [programInfoLog H])\<rparr>,
      Program vs fs)"
  by (simp add: createProgram_def Let_def)

text \<open>
  C9. The script checks for failure at two points and recovers at neither. Creating the
  rendering context raises \<open>Error("WebGL2 not supported.")\<close> exactly when the canvas yields
  no WebGL2 context, and \<open>main\<close> ends with that error. A shader that does not compile and a
  program that does not link are reported on the console, \<open>createShader\<close> and
  \<open>createProgram\<close> return the object all the same, and \<open>main\<close> runs to its end with that
  program in use: it rebuilds the grid and requests the first frame. Once the script is
  running, no frame, resize or pointer event raises an error, and the script stays running.
\<close>

theorem failure_points:
  assumes "innerWidth H < 2 ^ 32" and "innerHeight H < 2 ^ 32"
    and "innerWidth H2 < 2 ^ 32" and "innerHeight H2 < 2 ^ 32"
  shows "((\<exists>e. getWebGL2Context H = Inl e) \<longleftrightarrow> \<not> getContext_webgl2 H)
     \<and> (\<not> getContext_webgl2 H \<longrightarrow>
          getWebGL2Context H = Inl (Error ''WebGL2 not supported.'')
        \<and> main H st = Some (Inl (Error ''WebGL2 not supported.'')))
     \<and> createShader H st type source =
          (st\<lparr>console := console st
             @ (if COMPILE_STATUS H source then [] else [shaderInfoLog H source])\<rparr>,
           Shader type source)
     \<and> createProgram H st vs fs =
          (st\<lparr>console := console st @ (if LINK_STATUS H then [] else [programInfoLog H])\<rparr>,
           Program vs fs)
     \<and> (getContext_webgl2 H \<longrightarrow>
          (\<exists>st'. main H st = Some (Inr st')
            \<and> console st' = console st
                @ (if COMPILE_STATUS H vertexShaderSource then []
                   else [shaderInfoLog H vertexShaderSource])
                @ (if COMPILE_STATUS H fragmentShaderSource then []
                   else [shaderInfoLog H fragmentShaderSource])
                @ (if LINK_STATUS H then [] else [programInfoLog H])
            \<and> frames_requested st' = Suc (frames_requested st)
            \<and> map_option current_program (gl st')
                = Some (Some (Program (Shader VERTEX_SHADER vertexShaderSource)
                       (Shader FRAGMENT_SHADER fragmentShaderSource)))
            \<and> running st'))
     \<and> (running s \<longrightarrow>
          (\<exists>s'. updateAndRender now s = Inr s' \<and> running s')
        \<and> (\<exists>s'. on_resize H2 s = Some (Inr s') \<and> running s')
        \<and> running (on_mousemove x y s)
        \<and> running (on_touch touch s))"
proof (intro conjI impI)
  show "(\<exists>e. getWebGL2Context H = Inl e) \<longleftrightarrow> \<not> getContext_webgl2 H"
    by (simp add: getWebGL2Context_def)
next
  assume "\<not> getContext_webgl2 H"
  then show "getWebGL2Context H = Inl (Error ''WebGL2 not supported.'')"
    by (simp add: getWebGL2Context_def)
next
  assume "\<not> getContext_webgl2 H"
  then show "main H st = Some (Inl (Error ''WebGL2 not supported.''))"
    by (rule main_unsupported)
next
  show "createShader H st type source =
          (st\<lparr>console := console st
             @ (if COMPILE_STATUS H source then [] else [shaderInfoLog H source])\<rparr>,
           Shader type source)"
    by (rule createShader_logs)
next
  show "createProgram H st vs fs =
          (st\<lparr>console := console st @ (if LINK_STATUS H then [] else [programInfoLog H])\<rparr>,
           Program vs fs)"
    by (rule createProgram_logs)
next
  assume "getContext_webgl2 H"
  then show "\<exists>st'. main H st = Some (Inr st')
            \<and> console st' = console st
                @ (if COMPILE_STATUS H vertexShaderSource then []
                   else [shaderInfoLog H vertexShaderSource])
                @ (if COMPILE_STATUS H fragmentShaderSource then []
                   else [shaderInfoLog H fragmentShaderSource])
                @ (if LINK_STATUS H then [] else [programInfoLog H])
            \<and> frames_requested st' = Suc (frames_requested st)
            \<and> map_option current_program (gl st')
                = Some (Some (Program (Shader VERTEX_SHADER vertexShaderSource)
                       (Shader FRAGMENT_SHADER fragmentShaderSource)))
            \<and> running st'"
    using assms(1,2) by (rule main_supported)
next
  assume "running s"
  then show "\<exists>s'. updateAndRender now s = Inr s' \<and> running s'"
    by (rule updateAndRender_running)
next
  assume "running s"
  then show "\<exists>s'. on_resize H2 s = Some (Inr s') \<and> running s'"
    using assms(3,4) by (rule on_resize_running)
next
  assume "running s"
  then show "running (on_mousemove x y s)" using pointer_running by blast
next
  assume "running s"
  then show "running (on_touch touch s)" using pointer_running by blast
qed

theorem failure_points_witness:
  "(\<exists>st'. main \<lparr>innerWidth = 800, innerHeight = 600, getContext_webgl2 = True,
            COMPILE_STATUS = case_shader_source True False,
            shaderInfoLog = case_shader_source ''vs'' ''fs'',
            LINK_STATUS = False, programInfoLog = ''link''\<rparr> (initial_state (Fin 0))
          = Some (Inr st')
      \<and> console st' = [''fs'', ''link'']
      \<and> frames_requested st' = 1
      \<and> running st')
   \<and> (\<exists>s'. updateAndRender (Fin 16)
         (initial_state (Fin 0)\<lparr>gl := Some fresh_context,
            pMatrix := Some \<lparr>elements = 0\<rparr>, store := [identity9]\<rparr>) = Inr s'
       \<and> running s')
   \<and> (\<exists>s'. on_resize \<lparr>innerWidth = 1024, innerHeight = 768, getContext_webgl2 = True,
            COMPILE_STATUS = case_shader_source True False,
            shaderInfoLog = case_shader_source ''vs'' ''fs'',
            LINK_STATUS = False, programInfoLog = ''link''\<rparr>
         (initial_state (Fin 0)\<lparr>gl := Some fresh_context,
            pMatrix := Some \<lparr>elements = 0\<rparr>, store := [identity9]\<rparr>) = Some (Inr s')
       \<and> running s')"
proof -
  let ?H = "\<lparr>innerWidth = 800, innerHeight = 600, getContext_webgl2 = True,
            COMPILE_STATUS = case_shader_source True False,
            shaderInfoLog = case_shader_source ''vs'' ''fs'',
            LINK_STATUS = False, programInfoLog = ''link''\<rparr>"
  let ?H2 = "\<lparr>innerWidth = 1024, innerHeight = 768, getContext_webgl2 = True,
            COMPILE_STATUS = case_shader_source True False,
            shaderInfoLog = case_shader_source ''vs'' ''fs'',
            LINK_STATUS = False, programInfoLog = ''link''\<rparr>"
  let ?s = "initial_state (Fin 0)\<lparr>gl := Some fresh_context,
            pMatrix := Some \<lparr>elements = 0\<rparr>, store := [identity9]\<rparr>"
  have 1: "innerWidth ?H < 2 ^ 32" by simp
  have 2: "innerHeight ?H < 2 ^ 32" by simp
  have 3: "innerWidth ?H2 < 2 ^ 32" by simp
  have 4: "innerHeight ?H2 < 2 ^ 32" by simp
  have r: "running ?s" by (simp add: running_def)
  note T = failure_points[OF 1 2 3 4, where st = "initial_state (Fin 0)" and s = ?s
      and now = "Fin 16" and type = VERTEX_SHADER and source = vertexShaderSource
      and vs = "Shader VERTEX_SHADER vertexShaderSource"
      and fs = "Shader FRAGMENT_SHADER fragmentShaderSource"
      and x = "Fin 0" and y = "Fin 0" and touch = None]
  from T have "\<exists>st'. main ?H (initial_state (Fin 0)) = Some (Inr st')
      \<and> console st' = console (initial_state (Fin 0)) @ [] @ [''fs''] @ [''link'']
      \<and> frames_requested st' = Suc (frames_requested (initial_state (Fin 0)))
      \<and> map_option current_program (gl st')
                = Some (Some (Program (Shader VERTEX_SHADER vertexShaderSource)
                       (Shader FRAGMENT_SHADER fragmentShaderSource)))
      \<and> running st'"
    by simp
  then have a: "\<exists>st'. main ?H (initial_state (Fin 0)) = Some (Inr st')
      \<and> console st' = [''fs'', ''link''] \<and> frames_requested st' = 1 \<and> running st'"
    by (auto simp: initial_state_def)
  from T r have b: "\<exists>s'. updateAndRender (Fin 16) ?s = Inr s' \<and> running s'" by blast
  from T r have c: "\<exists>s'. on_resize ?H2 ?s = Some (Inr s') \<and> running s'" by blast
  from a b c show ?thesis by blast
qed

text \<open>
  An operation that raises without being checked: a \<open>resize\<close> event handled before
  \<open>main\<close> has obtained a context, or after it has failed to, reaches \<open>rebuildGrid\<close> with
  \<open>gl\<close> undefined.
\<close>

theorem failure_points_counterexample:
  "on_resize \<lparr>innerWidth = 800, innerHeight = 600, getContext_webgl2 = False,
       COMPILE_STATUS = case_shader_source True True,
       shaderInfoLog = case_shader_source [] [],
       LINK_STATUS = True, programInfoLog = []\<rparr> (initial_state (Fin 0))
     = Some (Inl (TypeError ''Cannot read properties of undefined''))"
  by (simp add: on_resize_def rebuildGrid_undefined_gl initial_state_def)

end
